theory Spec2Isabelle
  imports
    Main
    "HOL-Library.FSet"
    "HOL-Library.Finite_Map"
    "HOL-Library.Char_ord"
    "HOL-Library.List_Lexorder"
begin

section \<open>The catalog synchroniser: data model\<close>

text \<open>
  The Go package \<open>catalog\<close> mirrors the services of a registry (Consul) and the
  records of a DNS zone (NS1), diffs the two mirrors and writes the difference to the
  zone. This theory embeds the diff (\<open>onlyInFirst\<close>, \<open>serviceOnlyInFirst\<close>,
  \<open>nodesAreEqual\<close>), the zone transformation (\<open>transformZoneRecords\<close>), the
  write paths (\<open>create\<close>, \<open>remove\<close>) and the registry mirror (\<open>fetch\<close>,
  \<open>fetchIndefinitely\<close>).

  Conventions of the embedding.
  \<^item> A Go \<open>map[K]V\<close> is a finite map \<open>('k, 'v) fmap\<close>. The nil map and the empty
    map are both \<open>fmempty\<close>: the code reads, measures and ranges over maps that may be
    nil, which behaves as on the empty map, and every write to a map is preceded by the
    allocation of that map.
  \<^item> Go ranges over a map in an unspecified order. A loop over a map is a recursion
    over a list of its entries; the functions take \<open>entries m\<close>, the entries in
    ascending key order, and the lemmas about the loops hold for every list of entries.
  \<^item> \<open>int\<close>, \<open>int64\<close> and \<open>uint64\<close> values are \<open>int\<close> and \<open>nat\<close>: the code
    compares, copies and (for one counter) increments them, far from any overflow.
  \<^item> A Go string is a \<open>string\<close>, a list of bytes.
\<close>

datatype health = passing | critical | unknown

record srvAnswer =
  priority :: int
  weight :: int
  port :: int
  address :: string

record node =
  host :: string
  datacenter :: string
  consulID_node :: string
  aRecAnswer :: string
  srvRecAnswers :: "(int, srvAnswer) fmap"

record recordIDs =
  aRecID :: string
  srvRecID :: string

record recordTTLs =
  aRecTTL :: int
  srvRecTTL :: int

record service =
  id_svc :: string
  name :: string
  nodes :: "(string, node) fmap"
  healths :: "(string, health) fmap"
  ttls :: recordTTLs
  ns1IDs :: recordIDs
  consulID :: string

text \<open>The zero values of the structs (\<open>node{}\<close>, \<open>service{}\<close>).\<close>

definition node_zero :: node where
  "node_zero = \<lparr>host = [], datacenter = [], consulID_node = [], aRecAnswer = [],
     srvRecAnswers = fmempty\<rparr>"

definition service_zero :: service where
  "service_zero = \<lparr>id_svc = [], name = [], nodes = fmempty, healths = fmempty,
     ttls = \<lparr>aRecTTL = 0, srvRecTTL = 0\<rparr>, ns1IDs = \<lparr>aRecID = [], srvRecID = []\<rparr>,
     consulID = []\<rparr>"

text \<open>\<open>len(m)\<close> and \<open>range m\<close> of a Go map.\<close>

definition len :: "('k, 'v) fmap \<Rightarrow> nat" where
  "len m = fcard (fmdom m)"

definition entries :: "('k::linorder, 'v) fmap \<Rightarrow> ('k \<times> 'v) list" where
  "entries m = sorted_list_of_fmap m"

section \<open>The diff\<close>

subsection \<open>\<open>serviceOnlyInFirst\<close>\<close>

fun serviceOnlyInFirst_loop ::
  "(string \<times> service) list \<Rightarrow> (string, service) fmap \<Rightarrow> (string, service) fmap
    \<Rightarrow> (string, service) fmap" where
  "serviceOnlyInFirst_loop [] servicesB result = result"
| "serviceOnlyInFirst_loop ((k, sa) # rest) servicesB result =
     (case fmlookup servicesB k of
        None \<Rightarrow> serviceOnlyInFirst_loop rest servicesB (fmupd k sa result)
      | Some _ \<Rightarrow> serviceOnlyInFirst_loop rest servicesB result)"

definition serviceOnlyInFirst ::
  "(string, service) fmap \<Rightarrow> (string, service) fmap \<Rightarrow> (string, service) fmap" where
  "serviceOnlyInFirst servicesA servicesB =
     serviceOnlyInFirst_loop (entries servicesA) servicesB fmempty"

subsection \<open>\<open>nodesAreEqual\<close>\<close>

text \<open>The inner loop over the SRV answers of the expected node; \<open>False\<close> is the
  early \<open>return false\<close>.\<close>

fun srvAnswers_loop :: "(int \<times> srvAnswer) list \<Rightarrow> (int, srvAnswer) fmap \<Rightarrow> bool" where
  "srvAnswers_loop [] actualSrvs = True"
| "srvAnswers_loop ((p, expectedSrv) # rest) actualSrvs =
     (case fmlookup actualSrvs p of
        None \<Rightarrow> False
      | Some actualSrv \<Rightarrow>
          if expectedSrv \<noteq> actualSrv then False else srvAnswers_loop rest actualSrvs)"

fun nodesAreEqual_loop :: "(string \<times> node) list \<Rightarrow> (string, node) fmap \<Rightarrow> bool" where
  "nodesAreEqual_loop [] actual = True"
| "nodesAreEqual_loop ((h, expectedNode) # rest) actual =
     (case fmlookup actual h of
        None \<Rightarrow> False
      | Some actualNode \<Rightarrow>
          if aRecAnswer actualNode \<noteq> aRecAnswer expectedNode then False
          else if len (srvRecAnswers expectedNode) \<noteq> len (srvRecAnswers actualNode) then False
          else if \<not> srvAnswers_loop (entries (srvRecAnswers expectedNode))
                      (srvRecAnswers actualNode) then False
          else nodesAreEqual_loop rest actual)"

definition nodesAreEqual :: "(string, node) fmap \<Rightarrow> (string, node) fmap \<Rightarrow> bool" where
  "nodesAreEqual expected actual =
     (if len expected \<noteq> len actual then False
      else nodesAreEqual_loop (entries expected) actual)"

subsection \<open>\<open>onlyInFirst\<close>\<close>

text \<open>The service built in the branch of \<open>onlyInFirst\<close> for a key of both maps whose
  nodes or TTLs differ (lines 104 to 141 of the source): identifiers and TTLs of
  \<open>sa\<close>, each backfilled from \<open>sb\<close> where \<open>sa\<close> has the empty string or zero; the nodes of
  \<open>sa\<close>; \<open>healths\<close> and \<open>consulID\<close> are left at their zero values.\<close>

definition upsertPayload :: "service \<Rightarrow> service \<Rightarrow> service" where
  "upsertPayload sa sb =
     (let nodes_v = nodes sa;
          id_v = (if length (id_svc sa) = 0 then id_svc sb else id_svc sa);
          name_v = (if length (name sa) = 0 then name sb else name sa);
          ns1IDs_0 = \<lparr>aRecID = aRecID (ns1IDs sa), srvRecID = srvRecID (ns1IDs sa)\<rparr>;
          ns1IDs_1 = (if length (aRecID ns1IDs_0) = 0
                      then ns1IDs_0\<lparr>aRecID := aRecID (ns1IDs sb)\<rparr> else ns1IDs_0);
          ns1IDs_v = (if length (srvRecID ns1IDs_1) = 0
                      then ns1IDs_1\<lparr>srvRecID := srvRecID (ns1IDs sb)\<rparr> else ns1IDs_1);
          ttls_0 = \<lparr>aRecTTL = aRecTTL (ttls sa), srvRecTTL = srvRecTTL (ttls sa)\<rparr>;
          ttls_1 = (if aRecTTL ttls_0 = 0
                    then ttls_0\<lparr>aRecTTL := aRecTTL (ttls sb)\<rparr> else ttls_0);
          ttls_v = (if srvRecTTL ttls_1 = 0
                    then ttls_1\<lparr>srvRecTTL := srvRecTTL (ttls sb)\<rparr> else ttls_1);
          s = service_zero\<lparr>id_svc := id_v, name := name_v, ttls := ttls_v, ns1IDs := ns1IDs_v\<rparr>
      in if len nodes_v > 0 then s\<lparr>nodes := nodes_v\<rparr> else s)"

fun onlyInFirst_loop ::
  "(string \<times> service) list \<Rightarrow> (string, service) fmap \<Rightarrow> (string, service) fmap
    \<Rightarrow> (string, service) fmap" where
  "onlyInFirst_loop [] servicesB result = result"
| "onlyInFirst_loop ((k, sa) # rest) servicesB result =
     (case fmlookup servicesB k of
        None \<Rightarrow> onlyInFirst_loop rest servicesB (fmupd k sa result)
      | Some sb \<Rightarrow>
          if \<not> nodesAreEqual (nodes sa) (nodes sb) \<or> ttls sa \<noteq> ttls sb
          then onlyInFirst_loop rest servicesB (fmupd k (upsertPayload sa sb) result)
          else onlyInFirst_loop rest servicesB result)"

definition onlyInFirst ::
  "(string, service) fmap \<Rightarrow> (string, service) fmap \<Rightarrow> (string, service) fmap" where
  "onlyInFirst servicesA servicesB = onlyInFirst_loop (entries servicesA) servicesB fmempty"

text \<open>Equality of two instance sets as the specification words it: the same address
  keys and, for each key, equal A answers and equal SRV answers (same port keys,
  identical tuples).\<close>

definition instancesEqual_spec :: "(string, node) fmap \<Rightarrow> (string, node) fmap \<Rightarrow> bool" where
  "instancesEqual_spec a b \<longleftrightarrow>
     fmdom a = fmdom b \<and>
     fBall (fmdom a) (\<lambda>h.
        aRecAnswer (the (fmlookup a h)) = aRecAnswer (the (fmlookup b h)) \<and>
        srvRecAnswers (the (fmlookup a h)) = srvRecAnswers (the (fmlookup b h)))"

text \<open>One reconciliation pass of \<open>consul.sync\<close> (lines 44 and 50): the map handed to
  \<open>ns1.create\<close> and the map handed to \<open>ns1.remove\<close>, for the snapshot \<open>desired\<close> of the
  registry mirror and the snapshot \<open>observed\<close> of the DNS mirror. Each snapshot is read twice by the
  source; the model takes both reads to return the same map.\<close>

definition sync_pass ::
  "(string, service) fmap \<Rightarrow> (string, service) fmap
    \<Rightarrow> (string, service) fmap \<times> (string, service) fmap" where
  "sync_pass desired observed =
     (let upsert = onlyInFirst desired observed;
          remove_v = serviceOnlyInFirst observed desired
      in (upsert, remove_v))"


section \<open>Strings and numbers of the Go standard library\<close>

text \<open>
  The functions below are not code of the repository: they are the parts of the packages
  \<open>strings\<close>, \<open>unicode\<close>, \<open>unicode/utf8\<close>, \<open>strconv\<close> and \<open>fmt\<close> that the
  repository calls, written from the source of the Go standard library. A byte is its
  value as a natural number and a code point is a natural number.
\<close>

text \<open>The UTF-8 decoding of \<open>utf8.DecodeRuneInString\<close>, which a \<open>range\<close> over a
  string uses: from the first byte and the bytes after it, the code point and the number
  of following bytes it takes. A byte that starts no valid encoding decodes to
  \<open>RuneError\<close> and takes no following byte. The masks and shifts of the source are
  written with \<open>mod\<close> and multiplication.\<close>

definition RuneError :: nat where
  "RuneError = 0xFFFD"

definition decodeRune :: "nat \<Rightarrow> nat list \<Rightarrow> nat \<times> nat" where
  "decodeRune s0 rest =
     (if s0 < 0x80 then (s0, 0)
      else if s0 < 0xC2 \<or> 0xF4 < s0 then (RuneError, 0)
      else
        let sz = (if s0 < 0xE0 then 2 else if s0 < 0xF0 then 3 else 4);
            lo = (if s0 = 0xE0 then 0xA0 else if s0 = 0xF0 then 0x90 else 0x80);
            hi = (if s0 = 0xED then 0x9F else if s0 = 0xF4 then 0x8F else 0xBF)
        in if length rest + 1 < sz then (RuneError, 0)
           else
             let s1 = rest ! 0
             in if s1 < lo \<or> hi < s1 then (RuneError, 0)
                else if sz \<le> 2 then ((s0 mod 32) * 64 + s1 mod 64, 1)
                else
                  let s2 = rest ! 1
                  in if s2 < 0x80 \<or> 0xBF < s2 then (RuneError, 0)
                     else if sz \<le> 3
                     then ((s0 mod 16) * 4096 + (s1 mod 64) * 64 + s2 mod 64, 2)
                     else
                       let s3 = rest ! 2
                       in if s3 < 0x80 \<or> 0xBF < s3 then (RuneError, 0)
                          else ((s0 mod 8) * 262144 + (s1 mod 64) * 4096 + (s2 mod 64) * 64
                                  + s3 mod 64, 3))"

text \<open>\<open>unicode.IsSpace\<close>: the Latin-1 cases, then the table \<open>White_Space\<close>.\<close>

definition IsSpace :: "nat \<Rightarrow> bool" where
  "IsSpace r \<longleftrightarrow>
     (if r \<le> 0xFF
      then r = 0x09 \<or> r = 0x0A \<or> r = 0x0B \<or> r = 0x0C \<or> r = 0x0D \<or> r = 0x20 \<or> r = 0x85
           \<or> r = 0xA0
      else r = 0x1680 \<or> (0x2000 \<le> r \<and> r \<le> 0x200A) \<or> r = 0x2028 \<or> r = 0x2029
           \<or> r = 0x202F \<or> r = 0x205F \<or> r = 0x3000)"

text \<open>The table \<open>asciiSpace\<close> of the package \<open>strings\<close>.\<close>

definition asciiSpace :: "char \<Rightarrow> bool" where
  "asciiSpace c \<longleftrightarrow>
     (let b = (of_char c :: nat)
      in b = 0x09 \<or> b = 0x0A \<or> b = 0x0B \<or> b = 0x0C \<or> b = 0x0D \<or> b = 0x20)"

text \<open>\<open>strings.FieldsFunc\<close>: the loop over the code points of the string; \<open>field\<close>
  is the field being read (\<open>None\<close> between fields), as the bytes from its start.\<close>

function FieldsFunc_loop :: "(nat \<Rightarrow> bool) \<Rightarrow> string \<Rightarrow> string option \<Rightarrow> string list" where
  "FieldsFunc_loop f [] field = (case field of None \<Rightarrow> [] | Some fld \<Rightarrow> [fld])"
| "FieldsFunc_loop f (c # cs) field =
     (let (r, k) = decodeRune (of_char c) (map of_char cs)
      in if f r
         then (case field of
                 None \<Rightarrow> FieldsFunc_loop f (drop k cs) None
               | Some fld \<Rightarrow> fld # FieldsFunc_loop f (drop k cs) None)
         else FieldsFunc_loop f (drop k cs)
                (Some ((case field of None \<Rightarrow> [] | Some fld \<Rightarrow> fld) @ c # take k cs)))"
  by pat_completeness auto
termination
  by (relation "measure (\<lambda>(f, s, field). length s)") auto

definition FieldsFunc :: "string \<Rightarrow> (nat \<Rightarrow> bool) \<Rightarrow> string list" where
  "FieldsFunc s f = FieldsFunc_loop f s None"

text \<open>\<open>strings.Fields\<close>: the fast path for a string of ASCII bytes, and
  \<open>FieldsFunc\<close> with \<open>unicode.IsSpace\<close> when some byte is \<open>0x80\<close> or more.\<close>

function Fields_ascii :: "string \<Rightarrow> string list" where
  "Fields_ascii [] = []"
| "Fields_ascii (c # cs) =
     (if asciiSpace c then Fields_ascii cs
      else (c # takeWhile (\<lambda>x. \<not> asciiSpace x) cs)
             # Fields_ascii (dropWhile (\<lambda>x. \<not> asciiSpace x) cs))"
  by pat_completeness auto
termination
  by (relation "measure length") (auto simp: length_dropWhile_le less_Suc_eq_le)

definition Fields :: "string \<Rightarrow> string list" where
  "Fields s =
     (if list_ex (\<lambda>c. (of_char c :: nat) \<ge> 0x80) s then FieldsFunc s IsSpace
      else Fields_ascii s)"

text \<open>The code points of a string, decoded as \<open>range\<close> does.\<close>

function runes :: "string \<Rightarrow> nat list" where
  "runes [] = []"
| "runes (c # cs) = (let (r, k) = decodeRune (of_char c) (map of_char cs) in r # runes (drop k cs))"
  by pat_completeness auto
termination
  by (relation "measure length") auto

definition HasPrefix :: "string \<Rightarrow> string \<Rightarrow> bool" where
  "HasPrefix s pre \<longleftrightarrow> length s \<ge> length pre \<and> take (length pre) s = pre"

definition TrimPrefix :: "string \<Rightarrow> string \<Rightarrow> string" where
  "TrimPrefix s pre = (if HasPrefix s pre then drop (length pre) s else s)"

definition HasSuffix :: "string \<Rightarrow> string \<Rightarrow> bool" where
  "HasSuffix s suf \<longleftrightarrow> length s \<ge> length suf \<and> drop (length s - length suf) s = suf"

definition TrimSuffix :: "string \<Rightarrow> string \<Rightarrow> string" where
  "TrimSuffix s suf = (if HasSuffix s suf then take (length s - length suf) s else s)"

text \<open>\<open>strconv.ParseInt(s, 10, 64)\<close>: an optional sign, then one or more decimal digits;
  a syntax error or a value outside the 64-bit signed range is \<open>None\<close>.\<close>

definition isDigit :: "char \<Rightarrow> bool" where
  "isDigit c \<longleftrightarrow> CHR ''0'' \<le> c \<and> c \<le> CHR ''9''"

definition digitVal :: "char \<Rightarrow> int" where
  "digitVal c = int (of_char c) - 48"

definition ParseInt :: "string \<Rightarrow> int option" where
  "ParseInt s =
     (if s = [] then None
      else
        let neg = (hd s = CHR ''-'');
            ds = (if hd s = CHR ''+'' \<or> hd s = CHR ''-'' then tl s else s)
        in if ds = [] \<or> \<not> list_all isDigit ds then None
           else
             let un = foldl (\<lambda>a d. 10 * a + digitVal d) 0 ds
             in if \<not> neg \<and> un \<ge> 2 ^ 63 then None
                else if neg \<and> un > 2 ^ 63 then None
                else Some (if neg then - un else un))"

text \<open>The verb \<open>%d\<close> of \<open>fmt.Sprintf\<close>.\<close>

function digits :: "nat \<Rightarrow> string" where
  "digits n = (if n < 10 then [char_of (48 + n)]
               else digits (n div 10) @ [char_of (48 + n mod 10)])"
  by pat_completeness auto
termination
  by (relation "measure id") auto

definition FormatInt :: "int \<Rightarrow> string" where
  "FormatInt i = (if i < 0 then CHR ''-'' # digits (nat (- i)) else digits (nat i))"

text \<open>\<open>srvAnswer.String\<close>: \<open>fmt.Sprintf("%d %d %d %s", ...)\<close>.\<close>

definition srvAnswer_String :: "srvAnswer \<Rightarrow> string" where
  "srvAnswer_String a =
     FormatInt (priority a) @ '' '' @ FormatInt (weight a) @ '' '' @ FormatInt (port a)
       @ '' '' @ address a"

section \<open>The DNS mirror\<close>

text \<open>The fields of \<open>dns.ZoneRecord\<close> and \<open>dns.Zone\<close> that the code reads, the
  \<open>zone\<close> struct, and the fields of the receiver \<open>ns1\<close> that the modelled methods read
  (the client is passed separately, the cache and the channels are not modelled).\<close>

record ZoneRecord =
  Domain_zr :: string
  ID_zr :: string
  Type_zr :: string
  TTL_zr :: int
  ShortAns :: "string list"

record Zone_dns =
  ID_dz :: string
  Zone_dz :: string
  Records :: "ZoneRecord list"

record zone =
  id_zone :: string
  name_zone :: string

record ns1 =
  serviceZone :: zone
  ns1Prefix :: string
  dnsTTL :: int

text \<open>A call of the logger: level, message, arguments.\<close>

datatype logLevel = DebugLevel | InfoLevel | ErrorLevel

type_synonym logEntry = "logLevel \<times> string \<times> string list"

text \<open>A run-time panic of Go; the only one the modelled code can raise is the index
  out of range of \<open>ansFields[0]\<close>.\<close>

datatype panic = IndexOutOfRange

definition index :: "'a list \<Rightarrow> nat \<Rightarrow> panic + 'a" where
  "index xs i = (if i < length xs then Inr (xs ! i) else Inl IndexOutOfRange)"

text \<open>The inner loop of \<open>transformZoneRecords\<close> over the short answers of one record
  (lines 131 to 176). The state is \<open>svc.nodes\<close> and the log; a \<open>continue\<close> goes on
  with the state unchanged but for the log. The allocation of \<open>ansNode.srvRecAnswers\<close>
  when it is nil changes nothing in the model.\<close>

fun transformAnswers ::
  "string \<Rightarrow> string list \<Rightarrow> (string, node) fmap \<times> logEntry list
    \<Rightarrow> panic + ((string, node) fmap \<times> logEntry list)" where
  "transformAnswers recType [] st = Inr st"
| "transformAnswers recType (ans # rest) (nodes_v, lg) =
     (let ansFields = Fields ans
      in case (if length ansFields = 4 then index ansFields 3 else index ansFields 0) of
           Inl p \<Rightarrow> Inl p
         | Inr address_v \<Rightarrow>
             let ansNode = (case fmlookup nodes_v address_v of None \<Rightarrow> node_zero | Some n \<Rightarrow> n)
             in if recType = ''A''
                then transformAnswers recType rest
                       (fmupd address_v (ansNode\<lparr>aRecAnswer := address_v\<rparr>) nodes_v, lg)
                else if recType = ''SRV'' \<and> length ansFields = 4
                then (case ParseInt (ansFields ! 0) of
                        None \<Rightarrow> transformAnswers recType rest
                          (nodes_v, lg @ [(ErrorLevel, ''Unable to parse priority in SRV answer'', [ans])])
                      | Some priority_v \<Rightarrow>
                     (case ParseInt (ansFields ! 1) of
                        None \<Rightarrow> transformAnswers recType rest
                          (nodes_v, lg @ [(ErrorLevel, ''Unable to parse weight in SRV answer'', [ans])])
                      | Some weight_v \<Rightarrow>
                     (case ParseInt (ansFields ! 2) of
                        None \<Rightarrow> transformAnswers recType rest
                          (nodes_v, lg @ [(ErrorLevel, ''Unable to parse port in SRV answer'', [ans])])
                      | Some port_v \<Rightarrow>
                          transformAnswers recType rest
                            (fmupd address_v
                               (ansNode\<lparr>srvRecAnswers :=
                                  fmupd port_v
                                    \<lparr>priority = priority_v, weight = weight_v, port = port_v,
                                      address = address_v\<rparr>
                                    (srvRecAnswers ansNode)\<rparr>)
                               nodes_v, lg))))
                else transformAnswers recType rest (fmupd address_v ansNode nodes_v, lg))"

text \<open>The service name of a record (lines 109 and 110).\<close>

definition serviceNameOf :: "ns1 \<Rightarrow> ZoneRecord \<Rightarrow> string" where
  "serviceNameOf n record =
     (let serviceName = TrimPrefix (Domain_zr record) (ns1Prefix n)
      in TrimSuffix serviceName (''.'' @ name_zone (serviceZone n)))"

text \<open>The service a record is merged into, with the record's ID and TTL stored
  (lines 113 to 126).\<close>

definition serviceOfRecord :: "(string, service) fmap \<Rightarrow> string \<Rightarrow> ZoneRecord \<Rightarrow> service" where
  "serviceOfRecord services serviceName record =
     (let svc = (case fmlookup services serviceName of
                   None \<Rightarrow> service_zero\<lparr>name := serviceName\<rparr>
                 | Some s \<Rightarrow> s)
      in if Type_zr record = ''A''
         then svc\<lparr>ns1IDs := (ns1IDs svc)\<lparr>aRecID := ID_zr record\<rparr>,
                  ttls := (ttls svc)\<lparr>aRecTTL := TTL_zr record\<rparr>\<rparr>
         else if Type_zr record = ''SRV''
         then svc\<lparr>ns1IDs := (ns1IDs svc)\<lparr>srvRecID := ID_zr record\<rparr>,
                  ttls := (ttls svc)\<lparr>srvRecTTL := TTL_zr record\<rparr>\<rparr>
         else svc)"

fun transformZoneRecords_loop ::
  "ns1 \<Rightarrow> ZoneRecord list \<Rightarrow> (string, service) fmap \<times> logEntry list
    \<Rightarrow> panic + ((string, service) fmap \<times> logEntry list)" where
  "transformZoneRecords_loop n [] st = Inr st"
| "transformZoneRecords_loop n (record # rest) (services, lg) =
     (if Type_zr record \<noteq> ''A'' \<and> Type_zr record \<noteq> ''SRV''
      then transformZoneRecords_loop n rest
             (services,
              lg @ [(DebugLevel, ''Non-service record type found in zone, ignoring'',
                     [''ID'', ID_zr record])])
      else
        let serviceName = serviceNameOf n record;
            svc = serviceOfRecord services serviceName record
        in case transformAnswers (Type_zr record) (ShortAns record) (nodes svc, lg) of
             Inl p \<Rightarrow> Inl p
           | Inr (nodes_v, lg') \<Rightarrow>
               transformZoneRecords_loop n rest
                 (fmupd serviceName (svc\<lparr>nodes := nodes_v\<rparr>) services, lg'))"

definition transformZoneRecords ::
  "ns1 \<Rightarrow> Zone_dns \<Rightarrow> panic + ((string, service) fmap \<times> logEntry list)" where
  "transformZoneRecords n ns1Zone = transformZoneRecords_loop n (Records ns1Zone) (fmempty, [])"


section \<open>The write paths\<close>

text \<open>
  The fields of \<open>dns.Record\<close> that the code sets; the other fields of a record fetched
  from the provider (filters, metadata, regions) are carried along unchanged by the code
  and are left out. The record service of the provider is a parameter: what \<open>Get\<close>
  returns (\<open>None\<close> for an error) and whether \<open>Create\<close>, \<open>Update\<close> and \<open>Delete\<close>
  succeed. The calls made are collected in a list. The upsert and delete workers run as
  goroutines; the list has them in the order they are started. Log calls of the write
  paths are left out.
\<close>

record Record =
  Zone_r :: string
  Domain_r :: string
  Type_r :: string
  TTL_r :: int
  Answers :: "string list list"

datatype apiCall =
    Get string string string
  | Create Record
  | Update Record
  | Delete string string string

record recordService =
  Records_Get :: "string \<Rightarrow> string \<Rightarrow> string \<Rightarrow> Record option"
  Records_Create :: "Record \<Rightarrow> bool"
  Records_Update :: "Record \<Rightarrow> bool"
  Records_Delete :: "string \<Rightarrow> string \<Rightarrow> string \<Rightarrow> bool"

text \<open>\<open>dns.NewRecord\<close> of the provider's library: a record of the zone with no
  answers; a domain that does not end with the zone name gets the zone name appended.\<close>

definition NewRecord :: "string \<Rightarrow> string \<Rightarrow> string \<Rightarrow> Record" where
  "NewRecord zone_v domain t =
     \<lparr>Zone_r = zone_v,
      Domain_r = (if \<not> HasSuffix domain zone_v then domain @ ''.'' @ zone_v else domain),
      Type_r = t, TTL_r = 0, Answers = []\<rparr>"

text \<open>\<open>generateRecord\<close>: the calls made and the record, \<open>None\<close> for the error of
  \<open>Get\<close>.\<close>

definition generateRecord ::
  "ns1 \<Rightarrow> recordService \<Rightarrow> string \<Rightarrow> string \<Rightarrow> string \<Rightarrow> apiCall list \<times> Record option" where
  "generateRecord n client id_v name_v t =
     (let domain = name_v @ ''.'' @ name_zone (serviceZone n)
      in if id_v = []
         then ([], Some ((NewRecord (name_zone (serviceZone n)) domain t)
                           \<lparr>Answers := [], TTL_r := dnsTTL n\<rparr>))
         else (case Records_Get client (name_zone (serviceZone n)) domain t of
                 None \<Rightarrow> ([Get (name_zone (serviceZone n)) domain t], None)
               | Some rec \<Rightarrow> ([Get (name_zone (serviceZone n)) domain t],
                              Some (rec\<lparr>Answers := [], TTL_r := dnsTTL n\<rparr>))))"

text \<open>The record \<open>create\<close> goes on with: the generated one, or on an error the one of
  a second call of \<open>generateRecord\<close> with the empty ID, which makes no call and has no
  error.\<close>

definition generateOrNew ::
  "ns1 \<Rightarrow> recordService \<Rightarrow> string \<Rightarrow> string \<Rightarrow> string \<Rightarrow> apiCall list \<times> Record" where
  "generateOrNew n client id_v name_v t =
     (case generateRecord n client id_v name_v t of
        (calls, Some rec) \<Rightarrow> (calls, rec)
      | (calls, None) \<Rightarrow>
          (calls, (NewRecord (name_zone (serviceZone n))
                     (name_v @ ''.'' @ name_zone (serviceZone n)) t)
                    \<lparr>Answers := [], TTL_r := dnsTTL n\<rparr>))"

text \<open>The answers of one node (lines 240 to 247), and of all nodes of a service.\<close>

fun addSrvAnswers :: "(int \<times> srvAnswer) list \<Rightarrow> Record \<Rightarrow> Record" where
  "addSrvAnswers [] srvRec = srvRec"
| "addSrvAnswers ((p, a) # rest) srvRec =
     (let srvFields = Fields (srvAnswer_String a)
      in addSrvAnswers rest (srvRec\<lparr>Answers := Answers srvRec @ [srvFields]\<rparr>))"

fun addAnswers :: "(string \<times> node) list \<Rightarrow> Record \<times> Record \<Rightarrow> Record \<times> Record" where
  "addAnswers [] recs = recs"
| "addAnswers ((h, node_v) # rest) (aRec, srvRec) =
     (let aRec' = (if aRecAnswer node_v \<noteq> []
                   then aRec\<lparr>Answers := Answers aRec @ [[aRecAnswer node_v]]\<rparr> else aRec);
          srvRec' = addSrvAnswers (entries (srvRecAnswers node_v)) srvRec
      in addAnswers rest (aRec', srvRec'))"

text \<open>\<open>upsertRecord\<close> through \<open>upsertRecordWorker\<close>: the call made and what it adds
  to the count.\<close>

definition upsertRecordWorker :: "recordService \<Rightarrow> string \<Rightarrow> Record \<Rightarrow> apiCall \<times> nat" where
  "upsertRecordWorker client recID rec =
     (if recID = []
      then (Create rec, if Records_Create client rec then 1 else 0)
      else (Update rec, if Records_Update client rec then 1 else 0))"

fun create_loop ::
  "ns1 \<Rightarrow> recordService \<Rightarrow> (string \<times> service) list \<Rightarrow> apiCall list \<times> nat
    \<Rightarrow> apiCall list \<times> nat" where
  "create_loop n client [] st = st"
| "create_loop n client ((k, s) # rest) (calls, count_v) =
     (let name_v = ns1Prefix n @ k;
          (callsA, aRec) = generateOrNew n client (aRecID (ns1IDs s)) name_v ''A'';
          (callsS, srvRec) = generateOrNew n client (srvRecID (ns1IDs s)) name_v ''SRV'';
          (aRec', srvRec') = addAnswers (entries (nodes s)) (aRec, srvRec);
          (callA, okA) = upsertRecordWorker client (aRecID (ns1IDs s)) aRec';
          (callS, okS) = upsertRecordWorker client (srvRecID (ns1IDs s)) srvRec'
      in create_loop n client rest
           (calls @ callsA @ callsS @ [callA, callS], count_v + okA + okS))"

definition create :: "ns1 \<Rightarrow> recordService \<Rightarrow> (string, service) fmap \<Rightarrow> apiCall list \<times> nat" where
  "create n client services = create_loop n client (entries services) ([], 0)"

text \<open>The domain \<open>remove\<close> deletes from (lines 289 to 296).\<close>

definition removeDomain :: "ns1 \<Rightarrow> string \<Rightarrow> string" where
  "removeDomain n k =
     (if k = name_zone (serviceZone n) then name_zone (serviceZone n)
      else let name_v = ns1Prefix n @ k in name_v @ ''.'' @ name_zone (serviceZone n))"

definition removeRecordWorker ::
  "recordService \<Rightarrow> string \<Rightarrow> string \<Rightarrow> string \<Rightarrow> apiCall \<times> nat" where
  "removeRecordWorker client zone_v domain recType =
     (Delete zone_v domain recType, if Records_Delete client zone_v domain recType then 1 else 0)"

fun remove_loop ::
  "ns1 \<Rightarrow> recordService \<Rightarrow> (string \<times> service) list \<Rightarrow> apiCall list \<times> nat
    \<Rightarrow> apiCall list \<times> nat" where
  "remove_loop n client [] st = st"
| "remove_loop n client ((k, s) # rest) (calls, count_v) =
     (let domain = removeDomain n k;
          (calls1, count1) =
            (if length (aRecID (ns1IDs s)) \<noteq> 0
             then (let (c, ok) = removeRecordWorker client (name_zone (serviceZone n)) domain ''A''
                   in (calls @ [c], count_v + ok))
             else (calls, count_v));
          (calls2, count2) =
            (if length (srvRecID (ns1IDs s)) \<noteq> 0
             then (let (c, ok) = removeRecordWorker client (name_zone (serviceZone n)) domain ''SRV''
                   in (calls1 @ [c], count1 + ok))
             else (calls1, count1))
      in remove_loop n client rest (calls2, count2))"

definition remove_svc :: "ns1 \<Rightarrow> recordService \<Rightarrow> (string, service) fmap \<Rightarrow> apiCall list \<times> nat" where
  "remove_svc n client services = remove_loop n client (entries services) ([], 0)"

text \<open>The calls of one reconciliation pass: those of \<open>create\<close> on the upsert map, then
  those of \<open>remove\<close> on the deletion map.\<close>

definition sync_calls ::
  "ns1 \<Rightarrow> recordService \<Rightarrow> (string, service) fmap \<Rightarrow> (string, service) fmap \<Rightarrow> apiCall list" where
  "sync_calls n client desired observed =
     (let (upsert, remove_v) = sync_pass desired observed
      in fst (create n client upsert) @ fst (remove_svc n client remove_v))"

text \<open>The calls that write to the zone.\<close>

fun isWrite :: "apiCall \<Rightarrow> bool" where
  "isWrite (Get _ _ _) = False"
| "isWrite (Create _) = True"
| "isWrite (Update _) = True"
| "isWrite (Delete _ _ _) = True"


section \<open>The registry mirror\<close>

text \<open>
  The fields of \<open>consulapi.CatalogService\<close> and \<open>consulapi.HealthCheck\<close> that the
  code reads, and the registry client as a parameter: the three queries, each returning
  an error message (\<open>Inl\<close>) or its result. Of the receiver \<open>consul\<close> the model has
  \<open>dnsTTL\<close>.
\<close>

record CatalogService =
  ServiceAddress :: string
  Address :: string
  ServicePort :: int

record HealthCheck =
  Status :: string
  ServiceID :: string

datatype error = Error string

record consulClient =
  Catalog_Services :: "nat \<Rightarrow> string + ((string, string list) fmap \<times> nat)"
  Catalog_Service :: "string \<Rightarrow> string + CatalogService list"
  Health_Checks :: "string \<Rightarrow> string + HealthCheck list"

record consul =
  dnsTTL_c :: int

definition fetchNodes :: "consulClient \<Rightarrow> string \<Rightarrow> error + CatalogService list" where
  "fetchNodes client service_v =
     (case Catalog_Service client service_v of
        Inl err \<Rightarrow> Inl (Error (''error querying services, will retry: '' @ err))
      | Inr nodes_v \<Rightarrow> Inr nodes_v)"

definition fetchHealth :: "consulClient \<Rightarrow> string \<Rightarrow> error + HealthCheck list" where
  "fetchHealth client name_v =
     (case Health_Checks client name_v of
        Inl err \<Rightarrow> Inl (Error (''error querying health, will retry: '' @ err))
      | Inr status_v \<Rightarrow> Inr status_v)"

text \<open>\<open>fetchServices\<close>: on an error the index returned is 0.\<close>

definition fetchServices ::
  "consulClient \<Rightarrow> nat \<Rightarrow> (nat \<times> string) + ((string, string list) fmap \<times> nat)" where
  "fetchServices client waitIndex =
     (case Catalog_Services client waitIndex of
        Inl err \<Rightarrow> Inl (0, err)
      | Inr (services, lastIndex) \<Rightarrow> Inr (services, lastIndex))"

fun transformHealth_loop :: "HealthCheck list \<Rightarrow> (string, health) fmap \<Rightarrow> (string, health) fmap" where
  "transformHealth_loop [] healths_v = healths_v"
| "transformHealth_loop (h # rest) healths_v =
     (if Status h = ''passing'' then transformHealth_loop rest (fmupd (ServiceID h) passing healths_v)
      else if Status h = ''critical''
      then transformHealth_loop rest (fmupd (ServiceID h) critical healths_v)
      else transformHealth_loop rest (fmupd (ServiceID h) unknown healths_v))"

definition transformHealth :: "HealthCheck list \<Rightarrow> (string, health) fmap" where
  "transformHealth chealths = transformHealth_loop chealths fmempty"

fun transformNodes_loop :: "CatalogService list \<Rightarrow> (string, node) fmap \<Rightarrow> (string, node) fmap" where
  "transformNodes_loop [] nodes_v = nodes_v"
| "transformNodes_loop (n # rest) nodes_v =
     (let address_v = (if length (ServiceAddress n) = 0 then Address n else ServiceAddress n);
          nodes1 = (case fmlookup nodes_v address_v of
                      None \<Rightarrow> fmupd address_v node_zero nodes_v
                    | Some _ \<Rightarrow> nodes_v);
          node0 = (case fmlookup nodes1 address_v of None \<Rightarrow> node_zero | Some x \<Rightarrow> x);
          node1 = (if aRecAnswer node0 = [] then node0\<lparr>aRecAnswer := address_v\<rparr> else node0);
          node2 = (case fmlookup (srvRecAnswers node1) (ServicePort n) of
                     None \<Rightarrow> node1\<lparr>srvRecAnswers :=
                               fmupd (ServicePort n)
                                 \<lparr>priority = 1, weight = 1, port = ServicePort n,
                                   address = address_v\<rparr>
                                 (srvRecAnswers node1)\<rparr>
                   | Some _ \<Rightarrow> node1)
      in transformNodes_loop rest (fmupd address_v node2 nodes1))"

definition transformNodes :: "CatalogService list \<Rightarrow> (string, node) fmap" where
  "transformNodes cnodes = transformNodes_loop cnodes fmempty"

fun transformServices_loop ::
  "(string \<times> string list) list \<Rightarrow> (string, service) fmap \<Rightarrow> (string, service) fmap" where
  "transformServices_loop [] services = services"
| "transformServices_loop ((k, tags) # rest) services =
     (let s = service_zero\<lparr>id_svc := k, name := k, consulID := k\<rparr>
      in transformServices_loop rest (fmupd (name s) s services))"

definition transformServices :: "(string, string list) fmap \<Rightarrow> (string, service) fmap" where
  "transformServices cservices = transformServices_loop (entries cservices) fmempty"

text \<open>The loop of \<open>fetch\<close> (lines 119 to 135) over the entries of a second
  \<open>transformServices(cservices)\<close>; the state is the map \<open>services\<close> and the log.\<close>

fun fetch_loop ::
  "consul \<Rightarrow> consulClient \<Rightarrow> (string \<times> service) list \<Rightarrow> (string, service) fmap \<times> logEntry list
    \<Rightarrow> (string, service) fmap \<times> logEntry list" where
  "fetch_loop c client [] st = st"
| "fetch_loop c client ((id_v, s) # rest) (services, lg) =
     (case fetchNodes client id_v of
        Inl (Error err) \<Rightarrow>
          fetch_loop c client rest
            (services, lg @ [(ErrorLevel, ''error fetching nodes'', [''error'', err])])
      | Inr cnodes \<Rightarrow>
          let s1 = s\<lparr>nodes := transformNodes cnodes\<rparr>;
              (s2, lg2) = (case fetchHealth client id_v of
                             Inr chealths \<Rightarrow> (s1\<lparr>healths := transformHealth chealths\<rparr>, lg)
                           | Inl (Error err) \<Rightarrow>
                               (s1, lg @ [(ErrorLevel, ''error fetch health'', [''error'', err])]));
              s3 = s2\<lparr>ttls := \<lparr>aRecTTL = dnsTTL_c c, srvRecTTL = dnsTTL_c c\<rparr>\<rparr>
          in fetch_loop c client rest (fmupd id_v s3 services, lg2))"

text \<open>\<open>fetch\<close>: the error with the index 0, or the new index with the map handed to
  \<open>setServices\<close> and the log.\<close>

definition fetch ::
  "consul \<Rightarrow> consulClient \<Rightarrow> nat
    \<Rightarrow> (nat \<times> error) + (nat \<times> (string, service) fmap \<times> logEntry list)" where
  "fetch c client waitIndex =
     (case fetchServices client waitIndex of
        Inl (waitIndex', err) \<Rightarrow> Inl (waitIndex', Error (''error fetching services: '' @ err))
      | Inr (cservices, waitIndex') \<Rightarrow>
          let services = transformServices cservices;
              (services', lg) =
                fetch_loop c client (entries (transformServices cservices)) (services, [])
          in Inr (waitIndex', services', lg))"

text \<open>
  \<open>fetchIndefinitely\<close>. The loop has no bound; its model runs it over the rounds the
  environment grants: a round is the registry client as it answers during one iteration
  and whether the \<open>stop\<close> channel is closed when the \<open>select\<close> of that iteration looks at
  it. The state is the wait index, the counter of subsequent errors, the cache and the
  number of tokens sent on \<open>trigger\<close>. The loop ends (\<open>Exited\<close>, the deferred
  \<open>close(stopped)\<close> runs) or is still running when the rounds are used up (\<open>Running\<close>).
  The sleep of 500 ms is not modelled, and a send on \<open>trigger\<close> is taken to complete.
\<close>

record mirrorState =
  waitIndex_st :: nat
  subsequentErrors :: nat
  services_st :: "(string, service) fmap"
  triggers :: nat

datatype exitReason = TooManyErrors | StopClosed

datatype loopResult = Exited exitReason mirrorState | Running mirrorState

fun fetchIndefinitely_loop ::
  "consul \<Rightarrow> (consulClient \<times> bool) list \<Rightarrow> mirrorState \<Rightarrow> loopResult" where
  "fetchIndefinitely_loop c [] st = Running st"
| "fetchIndefinitely_loop c ((client, stop) # rest) st =
     (case fetch c client (waitIndex_st st) of
        Inl (newIndex, err) \<Rightarrow>
          let st1 = st\<lparr>subsequentErrors := subsequentErrors st + 1\<rparr>
          in if subsequentErrors st1 > 10 then Exited TooManyErrors st1
             else if stop then Exited StopClosed st1
             else fetchIndefinitely_loop c rest st1
      | Inr (newIndex, services, lg) \<Rightarrow>
          let st1 = st\<lparr>subsequentErrors := 0, waitIndex_st := newIndex,
                       services_st := services, triggers := triggers st + 1\<rparr>
          in if stop then Exited StopClosed st1
             else fetchIndefinitely_loop c rest st1)"

definition fetchIndefinitely :: "consul \<Rightarrow> (consulClient \<times> bool) list \<Rightarrow> loopResult" where
  "fetchIndefinitely c rounds =
     fetchIndefinitely_loop c rounds
       \<lparr>waitIndex_st = 1, subsequentErrors = 0, services_st = fmempty, triggers = 0\<rparr>"


section \<open>Concrete inputs\<close>

text \<open>Snapshots, a zone and a record service on which the theorems below are
  instantiated.\<close>

definition desired_ex :: "(string, service) fmap" where
  "desired_ex =
     fmupd ''s1'' (service_zero\<lparr>id_svc := ''s1'', name := ''s1'', consulID := ''s1'',
                    nodes := fmupd ''1.1.1.1'' (node_zero\<lparr>aRecAnswer := ''1.1.1.1''\<rparr>) fmempty,
                    ttls := \<lparr>aRecTTL = 60, srvRecTTL = 60\<rparr>\<rparr>)
    (fmupd ''s2'' (service_zero\<lparr>id_svc := ''s2'', name := ''s2'', consulID := ''s2'',
                    ttls := \<lparr>aRecTTL = 60, srvRecTTL = 60\<rparr>\<rparr>)
    (fmupd ''s3'' (service_zero\<lparr>id_svc := ''s3'', name := ''s3'', consulID := ''s3'',
                    ttls := \<lparr>aRecTTL = 60, srvRecTTL = 60\<rparr>\<rparr>) fmempty))"

definition observed_ex :: "(string, service) fmap" where
  "observed_ex =
     fmupd ''s1'' (service_zero\<lparr>name := ''s1'',
                    nodes := fmupd ''2.2.2.2'' (node_zero\<lparr>aRecAnswer := ''2.2.2.2''\<rparr>) fmempty,
                    ttls := \<lparr>aRecTTL = 60, srvRecTTL = 60\<rparr>,
                    ns1IDs := \<lparr>aRecID = ''r1'', srvRecID = []\<rparr>\<rparr>)
    (fmupd ''s2'' (service_zero\<lparr>name := ''s2'',
                    ttls := \<lparr>aRecTTL = 60, srvRecTTL = 60\<rparr>,
                    ns1IDs := \<lparr>aRecID = ''r3'', srvRecID = ''r4''\<rparr>\<rparr>)
    (fmupd ''s4'' (service_zero\<lparr>name := ''s4'',
                    ns1IDs := \<lparr>aRecID = ''r5'', srvRecID = ''r6''\<rparr>\<rparr>) fmempty))"

definition observed_same :: "(string, service) fmap" where
  "observed_same =
     fmupd ''s1'' (service_zero\<lparr>name := ''s1'',
                    nodes := fmupd ''1.1.1.1'' (node_zero\<lparr>aRecAnswer := ''1.1.1.1''\<rparr>) fmempty,
                    ttls := \<lparr>aRecTTL = 60, srvRecTTL = 60\<rparr>,
                    ns1IDs := \<lparr>aRecID = ''r1'', srvRecID = ''r2''\<rparr>\<rparr>)
    (fmupd ''s2'' (service_zero\<lparr>name := ''s2'',
                    ttls := \<lparr>aRecTTL = 60, srvRecTTL = 60\<rparr>,
                    ns1IDs := \<lparr>aRecID = ''r3'', srvRecID = ''r4''\<rparr>\<rparr>)
    (fmupd ''s3'' (service_zero\<lparr>name := ''s3'',
                    ttls := \<lparr>aRecTTL = 60, srvRecTTL = 60\<rparr>,
                    ns1IDs := \<lparr>aRecID = ''r5'', srvRecID = ''r6''\<rparr>\<rparr>) fmempty))"

definition zone_ex :: ns1 where
  "zone_ex = \<lparr>serviceZone = \<lparr>id_zone = ''1'', name_zone = ''test.zone''\<rparr>, ns1Prefix = [],
               dnsTTL = 60\<rparr>"

definition client_ok :: recordService where
  "client_ok = \<lparr>Records_Get = (\<lambda>z d t. Some \<lparr>Zone_r = z, Domain_r = d, Type_r = t, TTL_r = 60,
                                                  Answers = [[''9.9.9.9'']]\<rparr>),
                 Records_Create = (\<lambda>r. True), Records_Update = (\<lambda>r. True),
                 Records_Delete = (\<lambda>z d t. True)\<rparr>"

definition zone_ttl0 :: ns1 where
  "zone_ttl0 = \<lparr>serviceZone = \<lparr>id_zone = ''1'', name_zone = ''test.zone''\<rparr>, ns1Prefix = [],
                 dnsTTL = 0\<rparr>"

definition desired_ttl0 :: "(string, service) fmap" where
  "desired_ttl0 =
     fmupd ''s1'' (service_zero\<lparr>id_svc := ''s1'', name := ''s1'', consulID := ''s1'',
                    nodes := fmupd ''1.1.1.1'' (node_zero\<lparr>aRecAnswer := ''1.1.1.1''\<rparr>) fmempty\<rparr>)
       fmempty"

definition observed_ttl60 :: "(string, service) fmap" where
  "observed_ttl60 =
     fmupd ''s1'' (service_zero\<lparr>name := ''s1'',
                    nodes := fmupd ''1.1.1.1'' (node_zero\<lparr>aRecAnswer := ''1.1.1.1''\<rparr>) fmempty,
                    ttls := \<lparr>aRecTTL = 60, srvRecTTL = 60\<rparr>,
                    ns1IDs := \<lparr>aRecID = ''r1'', srvRecID = ''r2''\<rparr>\<rparr>)
       fmempty"

definition payload_ttl0 :: service where
  "payload_ttl0 =
     service_zero\<lparr>id_svc := ''s1'', name := ''s1'',
                   nodes := fmupd ''1.1.1.1'' (node_zero\<lparr>aRecAnswer := ''1.1.1.1''\<rparr>) fmempty,
                   ttls := \<lparr>aRecTTL = 60, srvRecTTL = 60\<rparr>,
                   ns1IDs := \<lparr>aRecID = ''r1'', srvRecID = ''r2''\<rparr>\<rparr>"

definition desired_apex :: "(string, service) fmap" where
  "desired_apex =
     fmupd ''test.zone''
       (service_zero\<lparr>id_svc := ''test.zone'', name := ''test.zone'', consulID := ''test.zone'',
                      ttls := \<lparr>aRecTTL = 60, srvRecTTL = 60\<rparr>\<rparr>)
       fmempty"

definition observed_apex :: "(string, service) fmap" where
  "observed_apex =
     fmupd ''test.zone''
       (service_zero\<lparr>name := ''test.zone'', ttls := \<lparr>aRecTTL = 60, srvRecTTL = 0\<rparr>,
                      ns1IDs := \<lparr>aRecID = ''r1'', srvRecID = []\<rparr>\<rparr>)
    (fmupd ''s2''
       (service_zero\<lparr>name := ''s2'', ttls := \<lparr>aRecTTL = 60, srvRecTTL = 60\<rparr>,
                      ns1IDs := \<lparr>aRecID = ''r2'', srvRecID = ''r3''\<rparr>\<rparr>)
       fmempty)"

text \<open>A malformed SRV short answer in the words of the specification: four
  white-space separated tokens of which the priority, the weight or the port does not
  parse; a record without its malformed answers when it is an SRV record; the SRV answer
  that a short answer of four tokens parses to; and what a snapshot holds for a service:
  the SRV answer at an address and a port, and the ID and TTL of its SRV record.\<close>

definition malformedSrv :: "string \<Rightarrow> bool" where
  "malformedSrv ans \<longleftrightarrow>
     length (Fields ans) = 4 \<and>
     (ParseInt (Fields ans ! 0) = None \<or> ParseInt (Fields ans ! 1) = None \<or>
      ParseInt (Fields ans ! 2) = None)"







definition zone_wellformed :: Zone_dns where
  "zone_wellformed = \<lparr>ID_dz = ''z1'', Zone_dz = ''test.zone'', Records =
     [\<lparr>Domain_zr = ''s1.test.zone'', ID_zr = ''r1'', Type_zr = ''A'', TTL_zr = 60,
        ShortAns = [''1.1.1.1'']\<rparr>,
      \<lparr>Domain_zr = ''s1.test.zone'', ID_zr = ''r2'', Type_zr = ''SRV'', TTL_zr = 60,
        ShortAns = [''1 1 1 1.1.1.1'', ''1 1 2 2.2.2.2'']\<rparr>]\<rparr>"

definition zone_blank :: Zone_dns where
  "zone_blank = \<lparr>ID_dz = ''z1'', Zone_dz = ''test.zone'', Records =
     [\<lparr>Domain_zr = ''s1.test.zone'', ID_zr = ''r1'', Type_zr = ''A'', TTL_zr = 60,
        ShortAns = [''1.1.1.1'', ''  '']\<rparr>]\<rparr>"

definition zone_nbsp :: Zone_dns where
  "zone_nbsp = \<lparr>ID_dz = ''z1'', Zone_dz = ''test.zone'', Records =
     [\<lparr>Domain_zr = ''s1.test.zone'', ID_zr = ''r1'', Type_zr = ''A'', TTL_zr = 60,
        ShortAns = [[CHR 0xC2, CHR 0xA0]]\<rparr>]\<rparr>"

definition consul_ex :: consul where
  "consul_ex = \<lparr>dnsTTL_c = 60\<rparr>"

definition registry_fail :: consulClient where
  "registry_fail =
     \<lparr>Catalog_Services = (\<lambda>waitIndex. Inr (fmupd ''s1'' [] (fmupd ''s2'' [] fmempty), 2)),
      Catalog_Service = (\<lambda>service_v.
         if service_v = ''s2''
         then Inr [\<lparr>ServiceAddress = [], Address = ''2.2.2.2'', ServicePort = 80\<rparr>]
         else Inl ''timeout''),
      Health_Checks = (\<lambda>name_v. Inl ''timeout'')\<rparr>"

definition registry_down :: consulClient where
  "registry_down =
     \<lparr>Catalog_Services = (\<lambda>waitIndex. Inl ''connection refused''),
      Catalog_Service = (\<lambda>service_v. Inl ''connection refused''),
      Health_Checks = (\<lambda>name_v. Inl ''connection refused'')\<rparr>"

definition registry_empty :: consulClient where
  "registry_empty =
     \<lparr>Catalog_Services = (\<lambda>waitIndex. Inr (fmempty, waitIndex + 1)),
      Catalog_Service = (\<lambda>service_v. Inr []),
      Health_Checks = (\<lambda>name_v. Inr [])\<rparr>"

definition mirror_start :: mirrorState where
  "mirror_start = \<lparr>waitIndex_st = 1, subsequentErrors = 0, services_st = fmempty, triggers = 0\<rparr>"

section \<open>Lemmas on maps and on the loops over them\<close>

lemma set_entries: "set (entries m) = {(k, v). fmlookup m k = Some v}"
  unfolding entries_def sorted_list_of_fmap_def
  by (auto simp: fmlookup_dom_iff)

lemma map_of_entries: "map_of (entries m) = fmlookup m"
  by (simp add: entries_def)

lemma distinct_entries: "distinct (map fst (entries m))"
  unfolding entries_def sorted_list_of_fmap_def
  by (simp add: comp_def sorted_list_of_fset.rep_eq)

lemma serviceOnlyInFirst_loop_lookup:
  "distinct (map fst xs) \<Longrightarrow>
   fmlookup (serviceOnlyInFirst_loop xs B r) k =
     (case map_of xs k of
        None \<Rightarrow> fmlookup r k
      | Some sa \<Rightarrow> (case fmlookup B k of None \<Rightarrow> Some sa | Some _ \<Rightarrow> fmlookup r k))"
proof (induction xs arbitrary: r)
  case Nil
  then show ?case by simp
next
  case (Cons x xs)
  obtain k' sa where x: "x = (k', sa)" by (cases x)
  from Cons.prems x have nk: "map_of xs k' = None" and d: "distinct (map fst xs)"
    by (auto simp: map_of_eq_None_iff)
  show ?case
    using Cons.IH[OF d] nk x
    by (auto split: option.splits)
qed

lemma onlyInFirst_loop_lookup:
  "distinct (map fst xs) \<Longrightarrow>
   fmlookup (onlyInFirst_loop xs B r) k =
     (case map_of xs k of
        None \<Rightarrow> fmlookup r k
      | Some sa \<Rightarrow>
          (case fmlookup B k of
             None \<Rightarrow> Some sa
           | Some sb \<Rightarrow>
               if \<not> nodesAreEqual (nodes sa) (nodes sb) \<or> ttls sa \<noteq> ttls sb
               then Some (upsertPayload sa sb) else fmlookup r k))"
proof (induction xs arbitrary: r)
  case Nil
  then show ?case by simp
next
  case (Cons x xs)
  obtain k' sa where x: "x = (k', sa)" by (cases x)
  from Cons.prems x have nk: "map_of xs k' = None" and d: "distinct (map fst xs)"
    by (auto simp: map_of_eq_None_iff)
  show ?case
    using Cons.IH[OF d] nk x
    by (auto split: option.splits)
qed

lemma srvAnswers_loop_iff:
  "srvAnswers_loop xs a \<longleftrightarrow> (\<forall>(p, e) \<in> set xs. fmlookup a p = Some e)"
  by (induction xs a rule: srvAnswers_loop.induct) (auto split: option.splits)

lemma fmap_eq_by_len:
  assumes "len e = len a" and "\<And>k v. fmlookup e k = Some v \<Longrightarrow> fmlookup a k = Some v"
  shows "e = a"
proof -
  have sub: "fmdom e |\<subseteq>| fmdom a"
    using assms(2) by (auto simp: fmlookup_dom_iff)
  have deq: "fmdom e = fmdom a"
    using fcard_seteq[OF sub] assms(1) by (simp add: len_def)
  show ?thesis
  proof (rule fmap_ext)
    fix k
    show "fmlookup e k = fmlookup a k"
    proof (cases "fmlookup e k")
      case None
      then have "k |\<notin>| fmdom a" using deq by (metis fmdom_notI)
      then show ?thesis using None by (simp add: fmdom_notD)
    next
      case (Some v)
      then show ?thesis using assms(2) by simp
    qed
  qed
qed

lemma srvAnswers_equal_iff:
  "len e = len a \<and> srvAnswers_loop (entries e) a \<longleftrightarrow> e = a"
proof
  assume h: "len e = len a \<and> srvAnswers_loop (entries e) a"
  then have "\<And>k v. fmlookup e k = Some v \<Longrightarrow> fmlookup a k = Some v"
    by (auto simp: srvAnswers_loop_iff set_entries)
  with h show "e = a" by (intro fmap_eq_by_len) auto
next
  assume "e = a"
  then show "len e = len a \<and> srvAnswers_loop (entries e) a"
    by (auto simp: srvAnswers_loop_iff set_entries)
qed

lemma nodesAreEqual_loop_iff:
  "nodesAreEqual_loop xs actual \<longleftrightarrow>
     (\<forall>(h, en) \<in> set xs. \<exists>an. fmlookup actual h = Some an \<and>
        aRecAnswer an = aRecAnswer en \<and> srvRecAnswers en = srvRecAnswers an)"
proof (induction xs actual rule: nodesAreEqual_loop.induct)
  case (1 actual)
  show ?case by simp
next
  case (2 h expectedNode rest actual)
  show ?case
  proof (cases "fmlookup actual h")
    case None
    then show ?thesis by simp
  next
    case (Some an)
    have eqv: "(len (srvRecAnswers expectedNode) = len (srvRecAnswers an) \<and>
           srvAnswers_loop (entries (srvRecAnswers expectedNode)) (srvRecAnswers an))
          = (srvRecAnswers expectedNode = srvRecAnswers an)"
      by (rule srvAnswers_equal_iff)
    show ?thesis
      using Some eqv "2.IH"[OF Some] by auto
  qed
qed

lemma nodesAreEqual_iff_spec: "nodesAreEqual a b \<longleftrightarrow> instancesEqual_spec a b"
proof
  assume h: "nodesAreEqual a b"
  then have l: "len a = len b" and lp: "nodesAreEqual_loop (entries a) b"
    by (auto simp: nodesAreEqual_def split: if_splits)
  have sub: "fmdom a |\<subseteq>| fmdom b"
    using lp by (fastforce simp: nodesAreEqual_loop_iff set_entries fmlookup_dom_iff)
  have deq: "fmdom a = fmdom b"
    using fcard_seteq[OF sub] l by (simp add: len_def)
  show "instancesEqual_spec a b"
    unfolding instancesEqual_spec_def
    using deq lp by (fastforce simp: nodesAreEqual_loop_iff set_entries fmlookup_dom_iff)
next
  assume h: "instancesEqual_spec a b"
  then have deq: "fmdom a = fmdom b" by (simp add: instancesEqual_spec_def)
  have "nodesAreEqual_loop (entries a) b"
    unfolding nodesAreEqual_loop_iff set_entries
  proof clarify
    fix k en assume ke: "fmlookup a k = Some en"
    then have "k |\<in>| fmdom a" by (rule fmdomI)
    then have kb: "k |\<in>| fmdom b" using deq by simp
    then obtain an where an: "fmlookup b k = Some an" by auto
    from h kb deq have "aRecAnswer (the (fmlookup a k)) = aRecAnswer (the (fmlookup b k)) \<and>
        srvRecAnswers (the (fmlookup a k)) = srvRecAnswers (the (fmlookup b k))"
      unfolding instancesEqual_spec_def by blast
    then show "\<exists>an. fmlookup b k = Some an \<and> aRecAnswer an = aRecAnswer en \<and>
        srvRecAnswers en = srvRecAnswers an"
      using an ke by simp
  qed
  then show "nodesAreEqual a b"
    using deq by (simp add: nodesAreEqual_def len_def)
qed

lemma serviceOnlyInFirst_lookup:
  "fmlookup (serviceOnlyInFirst A B) k =
     (case fmlookup A k of
        None \<Rightarrow> None
      | Some sa \<Rightarrow> (case fmlookup B k of None \<Rightarrow> Some sa | Some _ \<Rightarrow> None))"
  unfolding serviceOnlyInFirst_def
  by (simp add: serviceOnlyInFirst_loop_lookup[OF distinct_entries] map_of_entries
        split: option.splits)

lemma onlyInFirst_lookup:
  "fmlookup (onlyInFirst A B) k =
     (case fmlookup A k of
        None \<Rightarrow> None
      | Some sa \<Rightarrow>
          (case fmlookup B k of
             None \<Rightarrow> Some sa
           | Some sb \<Rightarrow>
               if \<not> nodesAreEqual (nodes sa) (nodes sb) \<or> ttls sa \<noteq> ttls sb
               then Some (upsertPayload sa sb) else None))"
  unfolding onlyInFirst_def
  by (simp add: onlyInFirst_loop_lookup[OF distinct_entries] map_of_entries
        split: option.splits)

lemma entries_empty: "entries fmempty = []"
  by (simp add: entries_def sorted_list_of_fmap_def sorted_list_of_fset.rep_eq)

lemma create_empty: "create n client fmempty = ([], 0)"
  by (simp add: create_def entries_empty)

lemma remove_svc_empty: "remove_svc n client fmempty = ([], 0)"
  by (simp add: remove_svc_def entries_empty)

lemma upsertPayload_fields:
  "id_svc (upsertPayload sa sb) = (if id_svc sa = [] then id_svc sb else id_svc sa)"
  "name (upsertPayload sa sb) = (if name sa = [] then name sb else name sa)"
  "aRecID (ns1IDs (upsertPayload sa sb)) =
     (if aRecID (ns1IDs sa) = [] then aRecID (ns1IDs sb) else aRecID (ns1IDs sa))"
  "srvRecID (ns1IDs (upsertPayload sa sb)) =
     (if srvRecID (ns1IDs sa) = [] then srvRecID (ns1IDs sb) else srvRecID (ns1IDs sa))"
  "aRecTTL (ttls (upsertPayload sa sb)) =
     (if aRecTTL (ttls sa) = 0 then aRecTTL (ttls sb) else aRecTTL (ttls sa))"
  "srvRecTTL (ttls (upsertPayload sa sb)) =
     (if srvRecTTL (ttls sa) = 0 then srvRecTTL (ttls sb) else srvRecTTL (ttls sa))"
  "healths (upsertPayload sa sb) = fmempty"
  "consulID (upsertPayload sa sb) = []"
  by (simp_all add: upsertPayload_def Let_def service_zero_def)

lemma len_0_iff: "len m = 0 \<longleftrightarrow> m = fmempty"
proof
  assume "len m = 0"
  then have d: "fmdom m = {||}" by (simp add: len_def)
  show "m = fmempty"
  proof (rule fmap_ext)
    fix k
    have "k |\<notin>| fmdom m" using d by simp
    then show "fmlookup m k = fmlookup fmempty k" by (simp add: fmdom_notD)
  qed
next
  assume "m = fmempty"
  then show "len m = 0" by (simp add: len_def)
qed

lemma upsertPayload_nodes: "nodes (upsertPayload sa sb) = nodes sa"
  using len_0_iff [of "nodes sa"]
  by (auto simp: upsertPayload_def Let_def service_zero_def)

lemma entries_single: "entries (fmupd k v fmempty) = [(k, v)]"
  by (simp add: entries_def sorted_list_of_fmap_def sorted_list_of_fset.rep_eq)

lemma addSrvAnswers_fields:
  "TTL_r (addSrvAnswers xs r) = TTL_r r"
  "Domain_r (addSrvAnswers xs r) = Domain_r r"
  "Zone_r (addSrvAnswers xs r) = Zone_r r"
  "Type_r (addSrvAnswers xs r) = Type_r r"
  by (induction xs r rule: addSrvAnswers.induct) (simp_all add: Let_def)

lemma addAnswers_fields:
  "TTL_r (fst (addAnswers xs (a, s))) = TTL_r a"
  "TTL_r (snd (addAnswers xs (a, s))) = TTL_r s"
  "Domain_r (fst (addAnswers xs (a, s))) = Domain_r a"
  "Domain_r (snd (addAnswers xs (a, s))) = Domain_r s"
  by (induction xs "(a, s)" arbitrary: a s rule: addAnswers.induct)
     (simp_all add: Let_def addSrvAnswers_fields)

lemma generateOrNew_TTL: "TTL_r (snd (generateOrNew n client i nm t)) = dnsTTL n"
  by (simp add: generateOrNew_def generateRecord_def Let_def split: option.splits)

lemma create_loop_TTL:
  assumes "\<forall>c \<in> set calls. \<forall>r. c = Create r \<or> c = Update r \<longrightarrow> TTL_r r = dnsTTL n"
  shows "\<forall>c \<in> set (fst (create_loop n client xs (calls, cnt))).
           \<forall>r. c = Create r \<or> c = Update r \<longrightarrow> TTL_r r = dnsTTL n"
  using assms
proof (induction xs arbitrary: calls cnt)
  case Nil
  then show ?case by simp
next
  case (Cons x xs)
  obtain k s where x: "x = (k, s)" by (cases x)
  obtain ca ra where ga: "generateOrNew n client (aRecID (ns1IDs s)) (ns1Prefix n @ k) ''A'' = (ca, ra)"
    by (cases "generateOrNew n client (aRecID (ns1IDs s)) (ns1Prefix n @ k) ''A''")
  obtain cs rs where gs: "generateOrNew n client (srvRecID (ns1IDs s)) (ns1Prefix n @ k) ''SRV'' = (cs, rs)"
    by (cases "generateOrNew n client (srvRecID (ns1IDs s)) (ns1Prefix n @ k) ''SRV''")
  obtain ra' rs' where aa: "addAnswers (entries (nodes s)) (ra, rs) = (ra', rs')"
    by (cases "addAnswers (entries (nodes s)) (ra, rs)")
  have ta: "TTL_r ra = dnsTTL n" using generateOrNew_TTL[of n client "aRecID (ns1IDs s)" "ns1Prefix n @ k" "''A''"] ga by simp
  have ts: "TTL_r rs = dnsTTL n" using generateOrNew_TTL[of n client "srvRecID (ns1IDs s)" "ns1Prefix n @ k" "''SRV''"] gs by simp
  have ta': "TTL_r ra' = dnsTTL n" using addAnswers_fields(1)[of "entries (nodes s)" ra rs] aa ta by simp
  have ts': "TTL_r rs' = dnsTTL n" using addAnswers_fields(2)[of "entries (nodes s)" ra rs] aa ts by simp
  have gets: "\<forall>c \<in> set (ca @ cs). \<forall>r. c \<noteq> Create r \<and> c \<noteq> Update r"
    using ga gs by (auto simp: generateOrNew_def generateRecord_def Let_def split: option.splits if_splits)
  let ?calls' = "calls @ ca @ cs @
       [fst (upsertRecordWorker client (aRecID (ns1IDs s)) ra'),
        fst (upsertRecordWorker client (srvRecID (ns1IDs s)) rs')]"
  have inv: "\<forall>c \<in> set ?calls'. \<forall>r. c = Create r \<or> c = Update r \<longrightarrow> TTL_r r = dnsTTL n"
    using Cons.prems gets ta' ts' by (auto simp: upsertRecordWorker_def)
  show ?case
    using Cons.IH[OF inv] by (simp add: x ga gs aa Let_def split_def)
qed

lemma fmap_single_eqI:
  assumes "fmlookup m k = Some v" and "\<And>k'. k' \<noteq> k \<Longrightarrow> fmlookup m k' = None"
  shows "m = fmupd k v fmempty"
  by (rule fmap_ext) (use assms in auto)

lemma onlyInFirst_ttl0: "onlyInFirst desired_ttl0 observed_ttl60 = fmupd ''s1'' payload_ttl0 fmempty"
proof (rule fmap_single_eqI)
  show "fmlookup (onlyInFirst desired_ttl0 observed_ttl60) ''s1'' = Some payload_ttl0"
    by (simp add: onlyInFirst_lookup desired_ttl0_def observed_ttl60_def payload_ttl0_def
          upsertPayload_def Let_def service_zero_def len_def fcard_finsert_if)
next
  fix k' :: string assume "k' \<noteq> ''s1''"
  then show "fmlookup (onlyInFirst desired_ttl0 observed_ttl60) k' = None"
    by (simp add: onlyInFirst_lookup desired_ttl0_def)
qed

lemma serviceOnlyInFirst_ttl0: "serviceOnlyInFirst observed_ttl60 desired_ttl0 = fmempty"
  by (rule fmap_ext) (simp add: serviceOnlyInFirst_lookup desired_ttl0_def observed_ttl60_def)

lemma create_ttl0:
  "fst (create zone_ttl0 client_ok (fmupd ''s1'' payload_ttl0 fmempty)) =
     [Get ''test.zone'' ''s1.test.zone'' ''A'',
      Get ''test.zone'' ''s1.test.zone'' ''SRV'',
      Update \<lparr>Zone_r = ''test.zone'', Domain_r = ''s1.test.zone'', Type_r = ''A'', TTL_r = 0,
               Answers = [[''1.1.1.1'']]\<rparr>,
      Update \<lparr>Zone_r = ''test.zone'', Domain_r = ''s1.test.zone'', Type_r = ''SRV'', TTL_r = 0,
               Answers = []\<rparr>]"
  by (simp add: create_def entries_single entries_empty generateOrNew_def generateRecord_def
        upsertRecordWorker_def zone_ttl0_def client_ok_def payload_ttl0_def service_zero_def
        node_zero_def Let_def)

lemma onlyInFirst_empty_right: "onlyInFirst A fmempty = A"
  by (rule fmap_ext) (simp add: onlyInFirst_lookup split: option.splits)

lemma serviceOnlyInFirst_empty_left: "serviceOnlyInFirst fmempty B = fmempty"
  by (rule fmap_ext) (simp add: serviceOnlyInFirst_lookup)

lemma remove_loop_calls:
  "fst (remove_loop n client xs (calls, cnt)) =
     calls @ concat (map (\<lambda>(k, s).
        (if aRecID (ns1IDs s) \<noteq> []
         then [Delete (name_zone (serviceZone n)) (removeDomain n k) ''A''] else []) @
        (if srvRecID (ns1IDs s) \<noteq> []
         then [Delete (name_zone (serviceZone n)) (removeDomain n k) ''SRV''] else [])) xs)"
proof (induction xs arbitrary: calls cnt)
  case Nil
  then show ?case by simp
next
  case (Cons x xs)
  obtain k s where x: "x = (k, s)" by (cases x)
  show ?case
    unfolding x by (simp add: Let_def removeRecordWorker_def Cons.IH split_def)
qed

lemma removeDomain_inj: "removeDomain n k = removeDomain n k' \<Longrightarrow> k = k'"
proof -
  assume h: "removeDomain n k = removeDomain n k'"
  have len: "\<And>j. j \<noteq> name_zone (serviceZone n) \<Longrightarrow>
     length (removeDomain n j) > length (name_zone (serviceZone n))"
    by (simp add: removeDomain_def Let_def)
  have lz: "length (removeDomain n (name_zone (serviceZone n))) = length (name_zone (serviceZone n))"
    by (simp add: removeDomain_def)
  show "k = k'"
  proof (cases "k = name_zone (serviceZone n)")
    case True
    show ?thesis
    proof (rule ccontr)
      assume "k \<noteq> k'"
      then have "k' \<noteq> name_zone (serviceZone n)" using True by simp
      from len[OF this] h lz True show False by simp
    qed
  next
    case False
    show ?thesis
    proof (cases "k' = name_zone (serviceZone n)")
      case True
      from len[OF False] h lz True show ?thesis by simp
    next
      case k': False
      from h False k' show ?thesis by (simp add: removeDomain_def Let_def)
    qed
  qed
qed

lemma distinct_remove_calls:
  "distinct (map fst xs) \<Longrightarrow>
   distinct (concat (map (\<lambda>(k, s).
        (if aRecID (ns1IDs s) \<noteq> []
         then [Delete (name_zone (serviceZone n)) (removeDomain n k) ''A''] else []) @
        (if srvRecID (ns1IDs s) \<noteq> []
         then [Delete (name_zone (serviceZone n)) (removeDomain n k) ''SRV''] else [])) xs))"
proof (induction xs)
  case Nil
  then show ?case by simp
next
  case (Cons x xs)
  obtain k s where x: "x = (k, s)" by (cases x)
  from Cons.prems x have nk: "k \<notin> fst ` set xs" and d: "distinct (map fst xs)" by auto
  have dom: "\<And>k' s'. (k', s') \<in> set xs \<Longrightarrow> removeDomain n k' \<noteq> removeDomain n k"
    using nk removeDomain_inj by force
  let ?F = "\<lambda>(k, s).
        (if aRecID (ns1IDs s) \<noteq> []
         then [Delete (name_zone (serviceZone n)) (removeDomain n k) ''A''] else []) @
        (if srvRecID (ns1IDs s) \<noteq> []
         then [Delete (name_zone (serviceZone n)) (removeDomain n k) ''SRV''] else [])"
  have rest: "\<And>c. c \<in> set (concat (map ?F xs)) \<Longrightarrow>
     \<exists>k' s' t. (k', s') \<in> set xs \<and> c = Delete (name_zone (serviceZone n)) (removeDomain n k') t"
    by (fastforce split: if_splits)
  have here: "\<And>c. c \<in> set (?F (k, s)) \<Longrightarrow>
     \<exists>t. c = Delete (name_zone (serviceZone n)) (removeDomain n k) t"
    by (auto split: if_splits)
  have disj: "set (?F (k, s)) \<inter> set (concat (map ?F xs)) = {}"
  proof (rule ccontr)
    assume "set (?F (k, s)) \<inter> set (concat (map ?F xs)) \<noteq> {}"
    then obtain c where c1: "c \<in> set (?F (k, s))" and c2: "c \<in> set (concat (map ?F xs))"
      by blast
    from here[OF c1] obtain t where t: "c = Delete (name_zone (serviceZone n)) (removeDomain n k) t"
      by blast
    from rest[OF c2] obtain k' s' t' where
      k': "(k', s') \<in> set xs" "c = Delete (name_zone (serviceZone n)) (removeDomain n k') t'"
      by blast
    from t k'(2) have "removeDomain n k' = removeDomain n k" by simp
    with dom[OF k'(1)] show False by simp
  qed
  have dh: "distinct (?F (k, s))" by simp
  have "distinct (?F (k, s) @ concat (map ?F xs))"
    using dh Cons.IH[OF d] disj by (simp only: distinct_append)
  then show ?case
    unfolding x by simp
qed

lemma transformAnswers_panic:
  "Fields ans = [] \<Longrightarrow> transformAnswers t (ans # rest) (nd, lg) = Inl IndexOutOfRange"
  by (simp add: index_def)

lemma transformAnswers_step:
  assumes "Fields ans \<noteq> []"
  shows "\<exists>nd' es.
     (\<forall>rest lg. transformAnswers t (ans # rest) (nd, lg) = transformAnswers t rest (nd', lg @ es)) \<and>
     (t = ''SRV'' \<and> malformedSrv ans \<longrightarrow> nd' = nd \<and> (\<exists>m. es = [(ErrorLevel, m, [ans])])) \<and>
     (\<not> (t = ''SRV'' \<and> malformedSrv ans) \<longrightarrow> es = [])"
proof -
  from assms have pos: "0 < length (Fields ans)" by simp
  show ?thesis
  proof (cases "t = ''SRV'' \<and> malformedSrv ans")
    case True
    then have l4: "length (Fields ans) = 4" by (simp add: malformedSrv_def)
    from True consider
        (p) "ParseInt (Fields ans ! 0) = None"
      | (w) "ParseInt (Fields ans ! 0) \<noteq> None" "ParseInt (Fields ans ! 1) = None"
      | (q) "ParseInt (Fields ans ! 0) \<noteq> None" "ParseInt (Fields ans ! 1) \<noteq> None"
            "ParseInt (Fields ans ! 2) = None"
      by (auto simp: malformedSrv_def)
    then show ?thesis
    proof cases
      case p
      have "\<forall>rest lg. transformAnswers t (ans # rest) (nd, lg) =
              transformAnswers t rest (nd, lg @ [(ErrorLevel, ''Unable to parse priority in SRV answer'', [ans])])"
        using True l4 p by (simp add: index_def Let_def)
      then show ?thesis using True by blast
    next
      case w
      have "\<forall>rest lg. transformAnswers t (ans # rest) (nd, lg) =
              transformAnswers t rest (nd, lg @ [(ErrorLevel, ''Unable to parse weight in SRV answer'', [ans])])"
        using True l4 w by (auto simp: index_def Let_def)
      then show ?thesis using True by blast
    next
      case q
      have "\<forall>rest lg. transformAnswers t (ans # rest) (nd, lg) =
              transformAnswers t rest (nd, lg @ [(ErrorLevel, ''Unable to parse port in SRV answer'', [ans])])"
        using True l4 q by (auto simp: index_def Let_def)
      then show ?thesis using True by blast
    qed
  next
    case False
    have "\<exists>nd'. \<forall>rest lg. transformAnswers t (ans # rest) (nd, lg) = transformAnswers t rest (nd', lg)"
    proof (cases "t = ''A''")
      case True
      then show ?thesis using pos by (auto simp: index_def Let_def)
    next
      case nA: False
      show ?thesis
      proof (cases "t = ''SRV'' \<and> length (Fields ans) = 4")
        case True
        with False obtain a b c where
          "ParseInt (Fields ans ! 0) = Some a" "ParseInt (Fields ans ! 1) = Some b"
          "ParseInt (Fields ans ! 2) = Some c"
          by (auto simp: malformedSrv_def)
        then show ?thesis using True nA by (auto simp: index_def Let_def)
      next
        case False
        then show ?thesis using nA pos by (auto simp: index_def Let_def)
      qed
    qed
    then show ?thesis using False by auto
  qed
qed


declare transformAnswers.simps(2) [simp del]

lemma transformAnswers_isl:
  "isl (transformAnswers t as (nd, lg)) \<longleftrightarrow> (\<exists>ans \<in> set as. Fields ans = [])"
proof (induction as arbitrary: nd lg)
  case Nil
  then show ?case by simp
next
  case (Cons ans rest)
  show ?case
  proof (cases "Fields ans = []")
    case True
    then show ?thesis by (simp add: transformAnswers_panic)
  next
    case False
    from transformAnswers_step[OF False, of t nd] obtain nd' es where
      "transformAnswers t (ans # rest) (nd, lg) = transformAnswers t rest (nd', lg @ es)"
      by blast
    then show ?thesis using False Cons.IH[of nd' "lg @ es"] by simp
  qed
qed






lemma transformZoneRecords_loop_service:
  "Type_zr r = ''A'' \<or> Type_zr r = ''SRV'' \<Longrightarrow>
   transformZoneRecords_loop n (r # rs) (sv, lg) =
     (case transformAnswers (Type_zr r) (ShortAns r)
             (nodes (serviceOfRecord sv (serviceNameOf n r) r), lg) of
        Inl p \<Rightarrow> Inl p
      | Inr (nd, lg') \<Rightarrow>
          transformZoneRecords_loop n rs
            (fmupd (serviceNameOf n r) ((serviceOfRecord sv (serviceNameOf n r) r)\<lparr>nodes := nd\<rparr>) sv,
             lg'))"
  by (auto simp: Let_def)

lemma transformZoneRecords_loop_other:
  "Type_zr r \<noteq> ''A'' \<Longrightarrow> Type_zr r \<noteq> ''SRV'' \<Longrightarrow>
   transformZoneRecords_loop n (r # rs) (sv, lg) =
     transformZoneRecords_loop n rs
       (sv, lg @ [(DebugLevel, ''Non-service record type found in zone, ignoring'',
                   [''ID'', ID_zr r])])"
  by simp

declare transformZoneRecords_loop.simps(2) [simp del]


lemma transformZoneRecords_loop_isl:
  "isl (transformZoneRecords_loop n rs (sv, lg)) \<longleftrightarrow>
     (\<exists>r \<in> set rs. (Type_zr r = ''A'' \<or> Type_zr r = ''SRV'') \<and>
        (\<exists>ans \<in> set (ShortAns r). Fields ans = []))"
proof (induction rs arbitrary: sv lg)
  case Nil
  then show ?case by simp
next
  case (Cons r rs)
  show ?case
  proof (cases "Type_zr r \<noteq> ''A'' \<and> Type_zr r \<noteq> ''SRV''")
    case True
    then show ?thesis using Cons.IH by (auto simp: transformZoneRecords_loop_other)
  next
    case False
    then have ty: "Type_zr r = ''A'' \<or> Type_zr r = ''SRV''" by blast
    note u = transformZoneRecords_loop_service[OF ty]
    let ?nm = "serviceNameOf n r"
    let ?svc = "serviceOfRecord sv ?nm r"
    let ?L = "transformAnswers (Type_zr r) (ShortAns r) (nodes ?svc, lg)"
    have i: "isl ?L \<longleftrightarrow> (\<exists>ans \<in> set (ShortAns r). Fields ans = [])"
      by (rule transformAnswers_isl)
    show ?thesis
    proof (cases ?L)
      case (Inl p)
      then show ?thesis using ty i by (auto simp: u)
    next
      case (Inr a)
      obtain nd' l1 where a: "a = (nd', l1)" by (cases a)
      have no: "\<not> (\<exists>ans \<in> set (ShortAns r). Fields ans = [])" using i Inr by simp
      show ?thesis
        using ty Inr a no Cons.IH[of "fmupd ?nm (?svc\<lparr>nodes := nd'\<rparr>) sv" l1]
        by (auto simp: u)
    qed
  qed
qed


lemma FieldsFunc_loop_empty:
  "FieldsFunc_loop f s field = [] \<longleftrightarrow> field = None \<and> list_all f (runes s)"
  by (induction f s field rule: FieldsFunc_loop.induct)
     (auto simp: Let_def split: prod.splits option.splits)

lemma Fields_ascii_empty: "Fields_ascii s = [] \<longleftrightarrow> (\<forall>c \<in> set s. asciiSpace c)"
  by (induction s rule: Fields_ascii.induct) auto

lemma decodeRune_ascii: "b < 0x80 \<Longrightarrow> decodeRune b rest = (b, 0)"
  by (simp add: decodeRune_def)

lemma runes_ascii:
  "\<not> list_ex (\<lambda>c. (of_char c :: nat) \<ge> 0x80) s \<Longrightarrow> runes s = map of_char s"
  by (induction s) (auto simp: decodeRune_ascii)

lemma IsSpace_ascii: "(of_char c :: nat) < 0x80 \<Longrightarrow> IsSpace (of_char c) \<longleftrightarrow> asciiSpace c"
  by (auto simp: IsSpace_def asciiSpace_def Let_def)

lemma Fields_empty_iff: "Fields s = [] \<longleftrightarrow> list_all IsSpace (runes s)"
proof (cases "list_ex (\<lambda>c. (of_char c :: nat) \<ge> 0x80) s")
  case True
  then show ?thesis by (simp add: Fields_def FieldsFunc_def FieldsFunc_loop_empty)
next
  case False
  then have a: "\<forall>c \<in> set s. (of_char c :: nat) < 0x80"
    by (auto simp: list_ex_iff not_le)
  have "list_all IsSpace (runes s) \<longleftrightarrow> (\<forall>c \<in> set s. IsSpace (of_char c))"
    by (simp add: runes_ascii[OF False] list_all_iff)
  also have "\<dots> \<longleftrightarrow> (\<forall>c \<in> set s. asciiSpace c)"
    using a IsSpace_ascii by blast
  finally show ?thesis using False by (simp add: Fields_def Fields_ascii_empty)
qed

lemma transformServices_loop_lookup:
  "fmlookup (transformServices_loop xs sv) k =
     (if k \<in> fst ` set xs then Some (service_zero\<lparr>id_svc := k, name := k, consulID := k\<rparr>)
      else fmlookup sv k)"
  by (induction xs sv rule: transformServices_loop.induct) (auto simp: Let_def)

lemma transformServices_lookup:
  "fmlookup (transformServices cservices) k =
     (if k |\<in>| fmdom cservices then Some (service_zero\<lparr>id_svc := k, name := k, consulID := k\<rparr>)
      else None)"
proof -
  have "fst ` set (entries cservices) = fmdom' cservices"
    by (auto simp: set_entries fmlookup_dom'_iff image_iff)
  then show ?thesis
    by (simp add: transformServices_def transformServices_loop_lookup fmdom'_alt_def)
qed

lemma fetch_loop_lookup:
  assumes "distinct (map fst xs)"
  shows "fmlookup (fst (fetch_loop c client xs (sv, lg))) k =
     (case map_of xs k of
        None \<Rightarrow> fmlookup sv k
      | Some s \<Rightarrow>
          (case fetchNodes client k of
             Inl e \<Rightarrow> fmlookup sv k
           | Inr cnodes \<Rightarrow>
               Some ((case fetchHealth client k of
                        Inr chealths \<Rightarrow>
                          s\<lparr>nodes := transformNodes cnodes, healths := transformHealth chealths\<rparr>
                      | Inl e \<Rightarrow> s\<lparr>nodes := transformNodes cnodes\<rparr>)
                     \<lparr>ttls := \<lparr>aRecTTL = dnsTTL_c c, srvRecTTL = dnsTTL_c c\<rparr>\<rparr>)))"
  using assms
proof (induction xs arbitrary: sv lg)
  case Nil
  then show ?case by simp
next
  case (Cons x xs)
  obtain k' s where x: "x = (k', s)" by (cases x)
  from Cons.prems x have nk: "map_of xs k' = None" and d: "distinct (map fst xs)"
    by (auto simp: map_of_eq_None_iff)
  show ?case
  proof (cases "fetchNodes client k'")
    case (Inl e)
    obtain err where e: "e = Error err" by (cases e)
    show ?thesis
      using Cons.IH[OF d] nk Inl e by (auto simp: x split: option.splits sum.splits)
  next
    case (Inr cnodes)
    show ?thesis
    proof (cases "fetchHealth client k'")
      case hl: (Inl e)
      obtain err where e: "e = Error err" by (cases e)
      show ?thesis
        using Cons.IH[OF d] nk Inr hl e by (auto simp: x Let_def split: option.splits sum.splits)
    next
      case hr: (Inr ch)
      show ?thesis
        using Cons.IH[OF d] nk Inr hr by (auto simp: x Let_def split: option.splits sum.splits)
    qed
  qed
qed

lemma fetch_result:
  assumes "Catalog_Services client waitIndex = Inr (cservices, lastIndex)"
  shows "\<exists>services lg. fetch c client waitIndex = Inr (lastIndex, services, lg) \<and>
     (\<forall>k. fmlookup services k =
        (if k |\<in>| fmdom cservices
         then (case fetchNodes client k of
                 Inl e \<Rightarrow> Some (service_zero\<lparr>id_svc := k, name := k, consulID := k\<rparr>)
               | Inr cnodes \<Rightarrow>
                   Some ((case fetchHealth client k of
                            Inr chealths \<Rightarrow>
                              service_zero\<lparr>id_svc := k, name := k, consulID := k,
                                nodes := transformNodes cnodes, healths := transformHealth chealths\<rparr>
                          | Inl e \<Rightarrow>
                              service_zero\<lparr>id_svc := k, name := k, consulID := k,
                                nodes := transformNodes cnodes\<rparr>)
                         \<lparr>ttls := \<lparr>aRecTTL = dnsTTL_c c, srvRecTTL = dnsTTL_c c\<rparr>\<rparr>))
         else None))"
proof -
  let ?ts = "transformServices cservices"
  obtain sv lg where fl: "fetch_loop c client (entries ?ts) (?ts, []) = (sv, lg)"
    by (cases "fetch_loop c client (entries ?ts) (?ts, [])")
  have f: "fetch c client waitIndex = Inr (lastIndex, sv, lg)"
    using assms fl by (simp add: fetch_def fetchServices_def Let_def)
  have "\<And>k. fmlookup sv k =
        (if k |\<in>| fmdom cservices
         then (case fetchNodes client k of
                 Inl e \<Rightarrow> Some (service_zero\<lparr>id_svc := k, name := k, consulID := k\<rparr>)
               | Inr cnodes \<Rightarrow>
                   Some ((case fetchHealth client k of
                            Inr chealths \<Rightarrow>
                              service_zero\<lparr>id_svc := k, name := k, consulID := k,
                                nodes := transformNodes cnodes, healths := transformHealth chealths\<rparr>
                          | Inl e \<Rightarrow>
                              service_zero\<lparr>id_svc := k, name := k, consulID := k,
                                nodes := transformNodes cnodes\<rparr>)
                         \<lparr>ttls := \<lparr>aRecTTL = dnsTTL_c c, srvRecTTL = dnsTTL_c c\<rparr>\<rparr>))
         else None)"
  proof -
    fix k
    have "fmlookup sv k = fmlookup (fst (fetch_loop c client (entries ?ts) (?ts, []))) k"
      by (simp add: fl)
    also have "\<dots> = (case fmlookup ?ts k of
        None \<Rightarrow> fmlookup ?ts k
      | Some s \<Rightarrow>
          (case fetchNodes client k of
             Inl e \<Rightarrow> fmlookup ?ts k
           | Inr cnodes \<Rightarrow>
               Some ((case fetchHealth client k of
                        Inr chealths \<Rightarrow>
                          s\<lparr>nodes := transformNodes cnodes, healths := transformHealth chealths\<rparr>
                      | Inl e \<Rightarrow> s\<lparr>nodes := transformNodes cnodes\<rparr>)
                     \<lparr>ttls := \<lparr>aRecTTL = dnsTTL_c c, srvRecTTL = dnsTTL_c c\<rparr>\<rparr>)))"
      by (simp add: fetch_loop_lookup[OF distinct_entries] map_of_entries)
    finally show "fmlookup sv k =
        (if k |\<in>| fmdom cservices
         then (case fetchNodes client k of
                 Inl e \<Rightarrow> Some (service_zero\<lparr>id_svc := k, name := k, consulID := k\<rparr>)
               | Inr cnodes \<Rightarrow>
                   Some ((case fetchHealth client k of
                            Inr chealths \<Rightarrow>
                              service_zero\<lparr>id_svc := k, name := k, consulID := k,
                                nodes := transformNodes cnodes, healths := transformHealth chealths\<rparr>
                          | Inl e \<Rightarrow>
                              service_zero\<lparr>id_svc := k, name := k, consulID := k,
                                nodes := transformNodes cnodes\<rparr>)
                         \<lparr>ttls := \<lparr>aRecTTL = dnsTTL_c c, srvRecTTL = dnsTTL_c c\<rparr>\<rparr>))
         else None)"
      by (simp add: transformServices_lookup split: sum.splits)
  qed
  with f show ?thesis by blast
qed


lemma transformNodes_example:
  "transformNodes [\<lparr>ServiceAddress = [], Address = ''2.2.2.2'', ServicePort = 80\<rparr>] =
     fmupd ''2.2.2.2''
       (node_zero\<lparr>aRecAnswer := ''2.2.2.2'',
          srvRecAnswers := fmupd 80 \<lparr>priority = 1, weight = 1, port = 80, address = ''2.2.2.2''\<rparr>
             fmempty\<rparr>) fmempty"
  by (simp add: transformNodes_def Let_def node_zero_def)

lemma fetchIndefinitely_loop_fail:
  "isl (fetch c client (waitIndex_st st)) \<Longrightarrow>
   fetchIndefinitely_loop c ((client, stop) # rest) st =
     (if subsequentErrors st + 1 > 10
      then Exited TooManyErrors (st\<lparr>subsequentErrors := subsequentErrors st + 1\<rparr>)
      else if stop then Exited StopClosed (st\<lparr>subsequentErrors := subsequentErrors st + 1\<rparr>)
      else fetchIndefinitely_loop c rest (st\<lparr>subsequentErrors := subsequentErrors st + 1\<rparr>))"
  by (cases "fetch c client (waitIndex_st st)") (auto simp: Let_def)

lemma fetchIndefinitely_loop_ok:
  "fetch c client (waitIndex_st st) = Inr (i, sv, lg) \<Longrightarrow>
   fetchIndefinitely_loop c ((client, stop) # rest) st =
     (if stop
      then Exited StopClosed (st\<lparr>subsequentErrors := 0, waitIndex_st := i, services_st := sv,
                                  triggers := triggers st + 1\<rparr>)
      else fetchIndefinitely_loop c rest
             (st\<lparr>subsequentErrors := 0, waitIndex_st := i, services_st := sv,
                  triggers := triggers st + 1\<rparr>))"
  by (simp add: Let_def)

declare fetchIndefinitely_loop.simps(2) [simp del]

lemma failures_exit:
  "fs \<noteq> [] \<Longrightarrow> 11 \<le> subsequentErrors st + length fs \<Longrightarrow>
   \<forall>x \<in> set fs. isl (fetch c (fst x) (waitIndex_st st)) \<Longrightarrow>
   \<exists>reason st'. fetchIndefinitely_loop c (fs @ later) st = Exited reason st'"
proof (induction fs arbitrary: st)
  case Nil
  then show ?case by simp
next
  case (Cons x fs)
  obtain client stop where x: "x = (client, stop)" by (cases x)
  from Cons.prems x have f: "isl (fetch c client (waitIndex_st st))" by simp
  let ?st1 = "st\<lparr>subsequentErrors := subsequentErrors st + 1\<rparr>"
  show ?case
  proof (cases "subsequentErrors st + 1 > 10 \<or> stop")
    case True
    then show ?thesis
      by (auto simp: x fetchIndefinitely_loop_fail[OF f])
  next
    case False
    then have ne: "fs \<noteq> []" using Cons.prems(2) by auto
    have le: "11 \<le> subsequentErrors ?st1 + length fs" using Cons.prems(2) by simp
    have af: "\<forall>x \<in> set fs. isl (fetch c (fst x) (waitIndex_st ?st1))" using Cons.prems(3) by simp
    from Cons.IH[OF ne le af] False show ?thesis
      by (simp add: x fetchIndefinitely_loop_fail[OF f])
  qed
qed

lemma failures_count:
  "subsequentErrors st + length fs \<le> 10 \<Longrightarrow>
   \<forall>x \<in> set fs. isl (fetch c (fst x) (waitIndex_st st)) \<and> \<not> snd x \<Longrightarrow>
   fetchIndefinitely_loop c (fs @ later) st =
     fetchIndefinitely_loop c later (st\<lparr>subsequentErrors := subsequentErrors st + length fs\<rparr>)"
proof (induction fs arbitrary: st)
  case Nil
  then show ?case by simp
next
  case (Cons x fs)
  obtain client stop where x: "x = (client, stop)" by (cases x)
  from Cons.prems x have f: "isl (fetch c client (waitIndex_st st))" and ns: "\<not> stop" by simp_all
  let ?st1 = "st\<lparr>subsequentErrors := subsequentErrors st + 1\<rparr>"
  have le: "subsequentErrors ?st1 + length fs \<le> 10" using Cons.prems(1) by simp
  have af: "\<forall>x \<in> set fs. isl (fetch c (fst x) (waitIndex_st ?st1)) \<and> \<not> snd x"
    using Cons.prems(2) by simp
  have small: "\<not> subsequentErrors st + 1 > 10" using Cons.prems(1) by simp
  show ?case
    using Cons.IH[OF le af] small ns
    by (simp add: x fetchIndefinitely_loop_fail[OF f])
qed

lemma eleventh_failure_exits:
  assumes "subsequentErrors st = 0" and "length fs = 11"
    and "\<forall>x \<in> set fs. isl (fetch c (fst x) (waitIndex_st st))"
    and "\<forall>x \<in> set (butlast fs). \<not> snd x"
  shows "fetchIndefinitely_loop c (fs @ later) st =
           Exited TooManyErrors (st\<lparr>subsequentErrors := 11\<rparr>) \<and>
         fetchIndefinitely_loop c (butlast fs) st = Running (st\<lparr>subsequentErrors := 10\<rparr>)"
proof -
  from assms(2) have ne: "fs \<noteq> []" by auto
  then have fs: "fs = butlast fs @ [last fs]" by simp
  have lb: "length (butlast fs) = 10" using assms(2) by simp
  have ab: "\<forall>x \<in> set (butlast fs). isl (fetch c (fst x) (waitIndex_st st)) \<and> \<not> snd x"
    using assms(3,4) by (auto dest: in_set_butlastD)
  have le: "subsequentErrors st + length (butlast fs) \<le> 10" using assms(1) lb by simp
  let ?st10 = "st\<lparr>subsequentErrors := 10\<rparr>"
  have c10: "\<And>later. fetchIndefinitely_loop c (butlast fs @ later) st =
       fetchIndefinitely_loop c later ?st10"
    using failures_count[OF le ab] assms(1) lb by simp
  obtain client stop where l: "last fs = (client, stop)" by (cases "last fs")
  have "last fs \<in> set fs" using ne by simp
  then have f: "isl (fetch c client (waitIndex_st ?st10))" using assms(3) l by force
  have "fetchIndefinitely_loop c (fs @ later) st =
          fetchIndefinitely_loop c ((butlast fs) @ (last fs # later)) st"
    using fs by (metis append_Cons append_Nil append_assoc)
  also have "\<dots> = fetchIndefinitely_loop c ((client, stop) # later) ?st10"
    using c10[of "last fs # later"] l by simp
  also have "\<dots> = Exited TooManyErrors (st\<lparr>subsequentErrors := 11\<rparr>)"
    by (simp add: fetchIndefinitely_loop_fail[OF f])
  finally have 1: "fetchIndefinitely_loop c (fs @ later) st =
           Exited TooManyErrors (st\<lparr>subsequentErrors := 11\<rparr>)" .
  have 2: "fetchIndefinitely_loop c (butlast fs) st = Running ?st10"
    using c10[of "[]"] by simp
  from 1 2 show ?thesis by simp
qed

lemma exit_needs_eleven:
  "fetchIndefinitely_loop c rounds st = Exited TooManyErrors st' \<Longrightarrow>
   subsequentErrors st \<le> 10 \<Longrightarrow>
   \<exists>pre fs suf. rounds = pre @ fs @ suf \<and>
      (\<forall>x \<in> set fs. isl (fetch c (fst x) (waitIndex_st st'))) \<and>
      (\<forall>x \<in> set (butlast fs). \<not> snd x) \<and>
      ((pre = [] \<and> subsequentErrors st + length fs = 11 \<and> waitIndex_st st' = waitIndex_st st)
       \<or> length fs = 11)"
proof (induction rounds arbitrary: st)
  case Nil
  then show ?case by simp
next
  case (Cons x rest)
  obtain client stop where x: "x = (client, stop)" by (cases x)
  show ?case
  proof (cases "fetch c client (waitIndex_st st)")
    case (Inl e)
    then have f: "isl (fetch c client (waitIndex_st st))" by simp
    let ?st1 = "st\<lparr>subsequentErrors := subsequentErrors st + 1\<rparr>"
    show ?thesis
    proof (cases "subsequentErrors st + 1 > 10")
      case True
      with Cons.prems have st': "st' = ?st1" and ten: "subsequentErrors st = 10"
        by (simp_all add: x fetchIndefinitely_loop_fail[OF f])
      have "x # rest = [] @ [x] @ rest" by simp
      moreover have "\<forall>y \<in> set [x]. isl (fetch c (fst y) (waitIndex_st st'))"
        using f x st' by simp
      moreover have "\<forall>y \<in> set (butlast [x]). \<not> snd y" by simp
      moreover have "subsequentErrors st + length [x] = 11 \<and> waitIndex_st st' = waitIndex_st st"
        using ten st' by simp
      ultimately show ?thesis by blast
    next
      case False
      with Cons.prems have ns: "\<not> stop"
        and r: "fetchIndefinitely_loop c rest ?st1 = Exited TooManyErrors st'"
        by (auto simp: x fetchIndefinitely_loop_fail[OF f] split: if_splits)
      have le: "subsequentErrors ?st1 \<le> 10" using False by simp
      from Cons.IH[OF r le] obtain pre fs suf where
        d: "rest = pre @ fs @ suf"
        and af: "\<forall>x \<in> set fs. isl (fetch c (fst x) (waitIndex_st st'))"
        and nb: "\<forall>x \<in> set (butlast fs). \<not> snd x"
        and alt: "(pre = [] \<and> subsequentErrors ?st1 + length fs = 11 \<and>
                    waitIndex_st st' = waitIndex_st ?st1) \<or> length fs = 11"
        by blast
      from alt show ?thesis
      proof
        assume a: "pre = [] \<and> subsequentErrors ?st1 + length fs = 11 \<and>
                    waitIndex_st st' = waitIndex_st ?st1"
        then have ne: "fs \<noteq> []" using False by auto
        have 1: "x # rest = [] @ (x # fs) @ suf" using d a by simp
        have 2: "\<forall>y \<in> set (x # fs). isl (fetch c (fst y) (waitIndex_st st'))"
          using af f x a by simp
        have 3: "\<forall>y \<in> set (butlast (x # fs)). \<not> snd y"
          using nb ns x ne by simp
        have 4: "subsequentErrors st + length (x # fs) = 11 \<and> waitIndex_st st' = waitIndex_st st"
          using a by simp
        from 1 2 3 4 show ?thesis by blast
      next
        assume a: "length fs = 11"
        have "x # rest = (x # pre) @ fs @ suf" using d by simp
        with af nb a show ?thesis by blast
      qed
    qed
  next
    case (Inr res)
    obtain i sv lg where res: "res = (i, sv, lg)" by (cases res)
    let ?st1 = "st\<lparr>subsequentErrors := 0, waitIndex_st := i, services_st := sv,
                    triggers := triggers st + 1\<rparr>"
    from Inr res have ok: "fetch c client (waitIndex_st st) = Inr (i, sv, lg)" by simp
    from Cons.prems have r: "fetchIndefinitely_loop c rest ?st1 = Exited TooManyErrors st'"
      by (auto simp: x fetchIndefinitely_loop_ok[OF ok] split: if_splits)
    have le: "subsequentErrors ?st1 \<le> 10" by simp
    from Cons.IH[OF r le] obtain pre fs suf where
      d: "rest = pre @ fs @ suf"
      and af: "\<forall>x \<in> set fs. isl (fetch c (fst x) (waitIndex_st st'))"
      and nb: "\<forall>x \<in> set (butlast fs). \<not> snd x"
      and alt: "(pre = [] \<and> subsequentErrors ?st1 + length fs = 11 \<and>
                  waitIndex_st st' = waitIndex_st ?st1) \<or> length fs = 11"
      by blast
    from alt have a: "length fs = 11" by auto
    have "x # rest = (x # pre) @ fs @ suf" using d by simp
    with af nb a show ?thesis by blast
  qed
qed


lemma fetch_registry_down: "isl (fetch c registry_down w)"
  by (simp add: fetch_def fetchServices_def registry_down_def)

lemma fetch_registry_empty: "fetch c registry_empty w = Inr (w + 1, fmempty, [])"
  by (simp add: fetch_def fetchServices_def registry_empty_def transformServices_def
        entries_empty)













lemma Fields_examples:
  "Fields ''1.1.1.1'' = [''1.1.1.1'']"
  "Fields ''1 1 1 1.1.1.1'' = [''1'', ''1'', ''1'', ''1.1.1.1'']"
  "Fields ''1 x 1 1.1.1.1'' = [''1'', ''x'', ''1'', ''1.1.1.1'']"
  "Fields ''1 1 2 2.2.2.2'' = [''1'', ''1'', ''2'', ''2.2.2.2'']"
  "Fields ''1 1 80'' = [''1'', ''1'', ''80'']"
  by (simp_all add: Fields_def asciiSpace_def)





lemma srv_answer_of_three_fields:
  "transformAnswers ''SRV'' [''1 1 80''] (fmempty, []) = Inr (fmupd ''1'' node_zero fmempty, [])"
  by (simp add: transformAnswers.simps(2) Fields_examples index_def)

section \<open>The claims\<close>

text \<open>
  C1. For every desired snapshot and observed snapshot, one reconciliation pass hands to
  the upsert operation exactly the services whose name is in the desired snapshot and
  either is not in the observed one, or has instance sets that differ structurally, or
  has a different TTL pair; and it hands to the delete operation exactly the names that
  are in the observed snapshot and not in the desired one.
\<close>

theorem sync_pass_upsert_and_delete_sets:
  "fmdom' (fst (sync_pass desired observed)) =
     {k. \<exists>sa. fmlookup desired k = Some sa \<and>
          (fmlookup observed k = None \<or>
           (\<exists>sb. fmlookup observed k = Some sb \<and>
              (\<not> instancesEqual_spec (nodes sa) (nodes sb) \<or> ttls sa \<noteq> ttls sb)))}
   \<and> fmdom' (snd (sync_pass desired observed)) = fmdom' observed - fmdom' desired"
proof
  show "fmdom' (fst (sync_pass desired observed)) =
     {k. \<exists>sa. fmlookup desired k = Some sa \<and>
          (fmlookup observed k = None \<or>
           (\<exists>sb. fmlookup observed k = Some sb \<and>
              (\<not> instancesEqual_spec (nodes sa) (nodes sb) \<or> ttls sa \<noteq> ttls sb)))}"
    by (auto simp: sync_pass_def fmlookup_dom'_iff onlyInFirst_lookup nodesAreEqual_iff_spec
          split: option.splits if_splits)
  show "fmdom' (snd (sync_pass desired observed)) = fmdom' observed - fmdom' desired"
    by (auto simp: sync_pass_def fmlookup_dom'_iff serviceOnlyInFirst_lookup
          split: option.splits)
qed

theorem sync_pass_upsert_and_delete_sets_witness:
  "''s1'' \<in> fmdom' (fst (sync_pass desired_ex observed_ex)) \<and>
   ''s2'' \<notin> fmdom' (fst (sync_pass desired_ex observed_ex)) \<and>
   ''s3'' \<in> fmdom' (fst (sync_pass desired_ex observed_ex)) \<and>
   fmdom' (snd (sync_pass desired_ex observed_ex)) = {''s4''}"
  using sync_pass_upsert_and_delete_sets [of desired_ex observed_ex]
  by (auto simp: desired_ex_def observed_ex_def instancesEqual_spec_def service_zero_def node_zero_def)


text \<open>
  C2. When the desired and the observed snapshot have the same service names and, for
  each name, structurally equal instance sets and equal TTL pairs (they may differ in
  identifiers, which is all that backfill touches), the pass hands the empty map to the
  upsert operation and the empty map to the delete operation, and makes no call to the
  DNS provider. This covers a snapshot compared with itself and the two empty snapshots.
\<close>

theorem sync_pass_idempotent:
  assumes "fmdom desired = fmdom observed"
    and "\<forall>k sa sb. fmlookup desired k = Some sa \<and> fmlookup observed k = Some sb \<longrightarrow>
           instancesEqual_spec (nodes sa) (nodes sb) \<and> ttls sa = ttls sb"
  shows "sync_pass desired observed = (fmempty, fmempty) \<and>
         sync_calls n client desired observed = []"
proof -
  have up: "onlyInFirst desired observed = fmempty"
  proof (rule fmap_ext)
    fix k
    show "fmlookup (onlyInFirst desired observed) k = fmlookup fmempty k"
    proof (cases "fmlookup desired k")
      case None
      then show ?thesis by (simp add: onlyInFirst_lookup)
    next
      case (Some sa)
      then have "k |\<in>| fmdom observed" using assms(1) by (metis fmdomI)
      then obtain sb where sb: "fmlookup observed k = Some sb" by auto
      with Some assms(2) have "instancesEqual_spec (nodes sa) (nodes sb) \<and> ttls sa = ttls sb"
        by blast
      then show ?thesis
        using Some sb by (simp add: onlyInFirst_lookup nodesAreEqual_iff_spec)
    qed
  qed
  have rm: "serviceOnlyInFirst observed desired = fmempty"
  proof (rule fmap_ext)
    fix k
    show "fmlookup (serviceOnlyInFirst observed desired) k = fmlookup fmempty k"
    proof (cases "fmlookup observed k")
      case None
      then show ?thesis by (simp add: serviceOnlyInFirst_lookup)
    next
      case (Some sb)
      then have "k |\<in>| fmdom desired" using assms(1) by (metis fmdomI)
      then obtain sa where "fmlookup desired k = Some sa" by auto
      then show ?thesis using Some by (simp add: serviceOnlyInFirst_lookup)
    qed
  qed
  show ?thesis
    by (simp add: sync_pass_def sync_calls_def up rm create_empty remove_svc_empty)
qed

theorem sync_pass_idempotent_witness:
  "sync_calls zone_ex client_ok desired_ex observed_same = [] \<and>
   sync_calls zone_ex client_ok desired_ex desired_ex = [] \<and>
   sync_calls zone_ex client_ok fmempty fmempty = []"
proof -
  have d: "fmdom desired_ex = fmdom observed_same"
    by (simp add: desired_ex_def observed_same_def)
  have h: "\<forall>k sa sb. fmlookup desired_ex k = Some sa \<and> fmlookup observed_same k = Some sb \<longrightarrow>
           instancesEqual_spec (nodes sa) (nodes sb) \<and> ttls sa = ttls sb"
    by (auto simp: desired_ex_def observed_same_def instancesEqual_spec_def service_zero_def
          node_zero_def split: if_splits)
  have 1: "sync_calls zone_ex client_ok desired_ex observed_same = []"
    using sync_pass_idempotent [OF d h, of zone_ex client_ok] by simp
  have h2: "\<forall>k sa sb. fmlookup desired_ex k = Some sa \<and> fmlookup desired_ex k = Some sb \<longrightarrow>
           instancesEqual_spec (nodes sa) (nodes sb) \<and> ttls sa = ttls sb"
    by (auto simp: instancesEqual_spec_def)
  have 2: "sync_calls zone_ex client_ok desired_ex desired_ex = []"
    using sync_pass_idempotent [OF refl h2, of zone_ex client_ok] by simp
  have h3: "\<forall>k sa sb. fmlookup fmempty k = Some sa \<and> fmlookup fmempty k = Some sb \<longrightarrow>
           instancesEqual_spec (nodes sa) (nodes sb) \<and> ttls sa = ttls sb"
    by simp
  have 3: "sync_calls zone_ex client_ok fmempty fmempty = []"
    using sync_pass_idempotent [OF refl h3, of zone_ex client_ok] by simp
  from 1 2 3 show ?thesis by simp
qed

text \<open>
  C3. For a key of both snapshots for which an upsert payload is produced, each record
  ID of the payload is non-empty exactly when it is non-empty on one of the two sides;
  the desired side wins where it has a value, and ID, name, record IDs and TTLs that are
  empty or zero on the desired side are taken from the observed side; the instances are
  those of the desired side.
\<close>

theorem upsert_payload_backfill:
  assumes "fmlookup desired k = Some sa"
    and "fmlookup observed k = Some sb"
    and "fmlookup (onlyInFirst desired observed) k = Some s"
  shows "(aRecID (ns1IDs s) \<noteq> [] \<longleftrightarrow> aRecID (ns1IDs sa) \<noteq> [] \<or> aRecID (ns1IDs sb) \<noteq> []) \<and>
         (srvRecID (ns1IDs s) \<noteq> [] \<longleftrightarrow> srvRecID (ns1IDs sa) \<noteq> [] \<or> srvRecID (ns1IDs sb) \<noteq> []) \<and>
         aRecID (ns1IDs s) =
           (if aRecID (ns1IDs sa) \<noteq> [] then aRecID (ns1IDs sa) else aRecID (ns1IDs sb)) \<and>
         srvRecID (ns1IDs s) =
           (if srvRecID (ns1IDs sa) \<noteq> [] then srvRecID (ns1IDs sa) else srvRecID (ns1IDs sb)) \<and>
         id_svc s = (if id_svc sa \<noteq> [] then id_svc sa else id_svc sb) \<and>
         name s = (if name sa \<noteq> [] then name sa else name sb) \<and>
         aRecTTL (ttls s) =
           (if aRecTTL (ttls sa) \<noteq> 0 then aRecTTL (ttls sa) else aRecTTL (ttls sb)) \<and>
         srvRecTTL (ttls s) =
           (if srvRecTTL (ttls sa) \<noteq> 0 then srvRecTTL (ttls sa) else srvRecTTL (ttls sb)) \<and>
         nodes s = nodes sa"
proof -
  from assms have s: "s = upsertPayload sa sb"
    by (auto simp: onlyInFirst_lookup split: if_splits)
  show ?thesis
    unfolding s by (simp add: upsertPayload_fields upsertPayload_nodes)
qed

theorem upsert_payload_backfill_witness:
  "\<exists>s. fmlookup (onlyInFirst desired_ex observed_ex) ''s1'' = Some s \<and>
       aRecID (ns1IDs s) = ''r1'' \<and> srvRecID (ns1IDs s) = [] \<and> id_svc s = ''s1'' \<and>
       name s = ''s1'' \<and> aRecTTL (ttls s) = 60 \<and>
       nodes s = fmupd ''1.1.1.1'' (node_zero\<lparr>aRecAnswer := ''1.1.1.1''\<rparr>) fmempty"
proof -
  define sa where "sa = service_zero\<lparr>id_svc := ''s1'', name := ''s1'', consulID := ''s1'',
                    nodes := fmupd ''1.1.1.1'' (node_zero\<lparr>aRecAnswer := ''1.1.1.1''\<rparr>) fmempty,
                    ttls := \<lparr>aRecTTL = 60, srvRecTTL = 60\<rparr>\<rparr>"
  define sb where "sb = service_zero\<lparr>name := ''s1'',
                    nodes := fmupd ''2.2.2.2'' (node_zero\<lparr>aRecAnswer := ''2.2.2.2''\<rparr>) fmempty,
                    ttls := \<lparr>aRecTTL = 60, srvRecTTL = 60\<rparr>,
                    ns1IDs := \<lparr>aRecID = ''r1'', srvRecID = []\<rparr>\<rparr>"
  have a: "fmlookup desired_ex ''s1'' = Some sa" by (simp add: desired_ex_def sa_def)
  have b: "fmlookup observed_ex ''s1'' = Some sb" by (simp add: observed_ex_def sb_def)
  have ne: "\<not> nodesAreEqual (nodes sa) (nodes sb)"
    by (simp add: nodesAreEqual_iff_spec instancesEqual_spec_def sa_def sb_def)
  have c: "fmlookup (onlyInFirst desired_ex observed_ex) ''s1'' = Some (upsertPayload sa sb)"
    using ne by (simp add: onlyInFirst_lookup a b)
  have f: "aRecID (ns1IDs sa) = []" "aRecID (ns1IDs sb) = ''r1''" "srvRecID (ns1IDs sa) = []"
    "srvRecID (ns1IDs sb) = []" "id_svc sa = ''s1''" "name sa = ''s1''" "aRecTTL (ttls sa) = 60"
    "nodes sa = fmupd ''1.1.1.1'' (node_zero\<lparr>aRecAnswer := ''1.1.1.1''\<rparr>) fmempty"
    by (simp_all add: sa_def sb_def service_zero_def)
  show ?thesis
    using upsert_payload_backfill [OF a b c] c by (simp add: f)
qed

text \<open>
  C4, as stated: a registry-side TTL of zero is treated as absent and backfilled from the
  DNS-side TTL in the upsert payload, and so a caller who configures the TTL 0 never
  forces a TTL change on the records written. The first half holds. The second does
  not: \<open>generateRecord\<close> overwrites the TTL of every record with the configured
  \<open>dnsTTL\<close> and \<open>create\<close> never reads the TTLs of the payload. With the TTL 0
  configured, a service whose records are in the zone with TTL 60 differs from the
  registry side in its TTL pair, is upserted, and both records are updated with TTL 0.
\<close>

theorem ttl_zero_forces_change_counterexample:
  "dnsTTL zone_ttl0 = 0 \<and>
   fmlookup observed_ttl60 ''s1'' =
     Some (service_zero\<lparr>name := ''s1'',
             nodes := fmupd ''1.1.1.1'' (node_zero\<lparr>aRecAnswer := ''1.1.1.1''\<rparr>) fmempty,
             ttls := \<lparr>aRecTTL = 60, srvRecTTL = 60\<rparr>,
             ns1IDs := \<lparr>aRecID = ''r1'', srvRecID = ''r2''\<rparr>\<rparr>) \<and>
   sync_calls zone_ttl0 client_ok desired_ttl0 observed_ttl60 =
     [Get ''test.zone'' ''s1.test.zone'' ''A'',
      Get ''test.zone'' ''s1.test.zone'' ''SRV'',
      Update \<lparr>Zone_r = ''test.zone'', Domain_r = ''s1.test.zone'', Type_r = ''A'', TTL_r = 0,
               Answers = [[''1.1.1.1'']]\<rparr>,
      Update \<lparr>Zone_r = ''test.zone'', Domain_r = ''s1.test.zone'', Type_r = ''SRV'', TTL_r = 0,
               Answers = []\<rparr>]"
proof -
  have "sync_calls zone_ttl0 client_ok desired_ttl0 observed_ttl60 =
          fst (create zone_ttl0 client_ok (fmupd ''s1'' payload_ttl0 fmempty))"
    by (simp add: sync_calls_def sync_pass_def onlyInFirst_ttl0 serviceOnlyInFirst_ttl0
          remove_svc_empty)
  then show ?thesis
    by (simp add: create_ttl0) (simp add: zone_ttl0_def observed_ttl60_def)
qed

text \<open>
  C4, amended: a registry-side TTL of zero is backfilled from the DNS-side TTL in the
  upsert payload; every record that \<open>create\<close> writes (creates or updates) carries the
  configured TTL \<open>dnsTTL\<close>, whatever the TTLs of the payload are.
\<close>

theorem zero_ttl_backfilled_written_ttl_configured:
  "(fmlookup desired k = Some sa \<and> fmlookup observed k = Some sb \<and>
      fmlookup (onlyInFirst desired observed) k = Some s \<longrightarrow>
        (aRecTTL (ttls sa) = 0 \<longrightarrow> aRecTTL (ttls s) = aRecTTL (ttls sb)) \<and>
        (srvRecTTL (ttls sa) = 0 \<longrightarrow> srvRecTTL (ttls s) = srvRecTTL (ttls sb))) \<and>
   (\<forall>c \<in> set (fst (create n client services)).
      \<forall>r. c = Create r \<or> c = Update r \<longrightarrow> TTL_r r = dnsTTL n)"
proof
  show "fmlookup desired k = Some sa \<and> fmlookup observed k = Some sb \<and>
      fmlookup (onlyInFirst desired observed) k = Some s \<longrightarrow>
        (aRecTTL (ttls sa) = 0 \<longrightarrow> aRecTTL (ttls s) = aRecTTL (ttls sb)) \<and>
        (srvRecTTL (ttls sa) = 0 \<longrightarrow> srvRecTTL (ttls s) = srvRecTTL (ttls sb))"
    by (auto simp: onlyInFirst_lookup upsertPayload_fields split: if_splits)
  show "\<forall>c \<in> set (fst (create n client services)).
      \<forall>r. c = Create r \<or> c = Update r \<longrightarrow> TTL_r r = dnsTTL n"
    unfolding create_def by (rule create_loop_TTL) simp
qed

theorem zero_ttl_backfilled_written_ttl_configured_witness:
  "fmlookup (onlyInFirst desired_ttl0 observed_ttl60) ''s1'' = Some payload_ttl0 \<and>
   aRecTTL (ttls payload_ttl0) = 60 \<and> srvRecTTL (ttls payload_ttl0) = 60 \<and>
   Update \<lparr>Zone_r = ''test.zone'', Domain_r = ''s1.test.zone'', Type_r = ''A'', TTL_r = 0,
            Answers = [[''1.1.1.1'']]\<rparr>
     \<in> set (fst (create zone_ttl0 client_ok (fmupd ''s1'' payload_ttl0 fmempty))) \<and>
   TTL_r \<lparr>Zone_r = ''test.zone'', Domain_r = ''s1.test.zone'', Type_r = ''A'', TTL_r = 0,
            Answers = [[''1.1.1.1'']]\<rparr> = dnsTTL zone_ttl0"
proof -
  have a: "fmlookup desired_ttl0 ''s1'' = Some (the (fmlookup desired_ttl0 ''s1''))"
    by (simp add: desired_ttl0_def)
  have b: "fmlookup observed_ttl60 ''s1'' = Some (the (fmlookup observed_ttl60 ''s1''))"
    by (simp add: observed_ttl60_def)
  have c: "fmlookup (onlyInFirst desired_ttl0 observed_ttl60) ''s1'' = Some payload_ttl0"
    by (simp add: onlyInFirst_ttl0)
  have z: "aRecTTL (ttls (the (fmlookup desired_ttl0 ''s1''))) = 0"
    "srvRecTTL (ttls (the (fmlookup desired_ttl0 ''s1''))) = 0"
    "aRecTTL (ttls (the (fmlookup observed_ttl60 ''s1''))) = 60"
    "srvRecTTL (ttls (the (fmlookup observed_ttl60 ''s1''))) = 60"
    by (simp_all add: desired_ttl0_def observed_ttl60_def service_zero_def)
  have m: "Update \<lparr>Zone_r = ''test.zone'', Domain_r = ''s1.test.zone'', Type_r = ''A'', TTL_r = 0,
            Answers = [[''1.1.1.1'']]\<rparr>
     \<in> set (fst (create zone_ttl0 client_ok (fmupd ''s1'' payload_ttl0 fmempty)))"
    by (simp add: create_ttl0)
  show ?thesis
    using zero_ttl_backfilled_written_ttl_configured
      [of desired_ttl0 "''s1''" "the (fmlookup desired_ttl0 ''s1'')" observed_ttl60
          "the (fmlookup observed_ttl60 ''s1'')" payload_ttl0 zone_ttl0 client_ok
          "fmupd ''s1'' payload_ttl0 fmempty"]
      a b c z m
    by auto
qed

text \<open>
  C5. When the registry has a service whose name is the zone name, the domain on the
  upsert path should be the zone name itself. The code does otherwise: \<open>create\<close>
  always builds the domain as prefix, name, a dot and the zone name, so for the zone
  \<open>test.zone\<close> both records of the service \<open>test.zone\<close> are created at
  \<open>test.zone.test.zone\<close>, while \<open>remove\<close> deletes such a service at \<open>test.zone\<close>.
\<close>

theorem create_apex_service_domain:
  "sync_calls zone_ex client_ok desired_apex fmempty =
     [Create \<lparr>Zone_r = ''test.zone'', Domain_r = ''test.zone.test.zone'', Type_r = ''A'',
               TTL_r = 60, Answers = []\<rparr>,
      Create \<lparr>Zone_r = ''test.zone'', Domain_r = ''test.zone.test.zone'', Type_r = ''SRV'',
               TTL_r = 60, Answers = []\<rparr>]"
proof -
  have "sync_calls zone_ex client_ok desired_apex fmempty =
          fst (create zone_ex client_ok desired_apex)"
    by (simp add: sync_calls_def sync_pass_def onlyInFirst_empty_right
          serviceOnlyInFirst_empty_left remove_svc_empty)
  also have "\<dots> =
     [Create \<lparr>Zone_r = ''test.zone'', Domain_r = ''test.zone.test.zone'', Type_r = ''A'',
               TTL_r = 60, Answers = []\<rparr>,
      Create \<lparr>Zone_r = ''test.zone'', Domain_r = ''test.zone.test.zone'', Type_r = ''SRV'',
               TTL_r = 60, Answers = []\<rparr>]"
    by (simp add: create_def desired_apex_def entries_single entries_empty generateOrNew_def
          generateRecord_def NewRecord_def HasSuffix_def upsertRecordWorker_def zone_ex_def
          client_ok_def service_zero_def Let_def)
  finally show ?thesis .
qed

text \<open>
  C6. For the services handed to \<open>remove\<close>, the delete calls are, without repetition,
  exactly one for each service and each record type whose stored record ID is
  non-empty: against prefix, name, a dot and the zone name, or against the zone name
  alone when the service name is the zone name.
\<close>

theorem remove_issues_one_delete_per_stored_id:
  "distinct (fst (remove_svc n client services)) \<and>
   set (fst (remove_svc n client services)) =
     {Delete (name_zone (serviceZone n))
        (if k = name_zone (serviceZone n) then name_zone (serviceZone n)
         else ns1Prefix n @ k @ ''.'' @ name_zone (serviceZone n)) ''A'' | k s.
        fmlookup services k = Some s \<and> aRecID (ns1IDs s) \<noteq> []} \<union>
     {Delete (name_zone (serviceZone n))
        (if k = name_zone (serviceZone n) then name_zone (serviceZone n)
         else ns1Prefix n @ k @ ''.'' @ name_zone (serviceZone n)) ''SRV'' | k s.
        fmlookup services k = Some s \<and> srvRecID (ns1IDs s) \<noteq> []}"
proof
  show "distinct (fst (remove_svc n client services))"
    unfolding remove_svc_def remove_loop_calls
    using distinct_remove_calls[OF distinct_entries] by simp
  have rd: "\<And>k. removeDomain n k =
      (if k = name_zone (serviceZone n) then name_zone (serviceZone n)
       else ns1Prefix n @ k @ ''.'' @ name_zone (serviceZone n))"
    by (simp add: removeDomain_def Let_def)
  show "set (fst (remove_svc n client services)) =
     {Delete (name_zone (serviceZone n))
        (if k = name_zone (serviceZone n) then name_zone (serviceZone n)
         else ns1Prefix n @ k @ ''.'' @ name_zone (serviceZone n)) ''A'' | k s.
        fmlookup services k = Some s \<and> aRecID (ns1IDs s) \<noteq> []} \<union>
     {Delete (name_zone (serviceZone n))
        (if k = name_zone (serviceZone n) then name_zone (serviceZone n)
         else ns1Prefix n @ k @ ''.'' @ name_zone (serviceZone n)) ''SRV'' | k s.
        fmlookup services k = Some s \<and> srvRecID (ns1IDs s) \<noteq> []}"
    unfolding remove_svc_def remove_loop_calls rd[symmetric]
    by (auto simp: set_entries split: if_splits)
qed

theorem remove_issues_one_delete_per_stored_id_witness:
  "Delete ''test.zone'' ''test.zone'' ''A'' \<in> set (fst (remove_svc zone_ex client_ok observed_apex)) \<and>
   Delete ''test.zone'' ''test.zone'' ''SRV'' \<notin> set (fst (remove_svc zone_ex client_ok observed_apex)) \<and>
   Delete ''test.zone'' ''s2.test.zone'' ''A'' \<in> set (fst (remove_svc zone_ex client_ok observed_apex)) \<and>
   Delete ''test.zone'' ''s2.test.zone'' ''SRV'' \<in> set (fst (remove_svc zone_ex client_ok observed_apex)) \<and>
   Delete ''test.zone'' ''test.zone.test.zone'' ''A''
     \<notin> set (fst (remove_svc zone_ex client_ok observed_apex))"
  using remove_issues_one_delete_per_stored_id [of zone_ex client_ok observed_apex]
  by (auto simp: zone_ex_def observed_apex_def service_zero_def split: if_splits)




text \<open>
  C8, as stated: after a successful refresh the snapshot has every service name of the
  list, a service whose instance or health fetch failed is included with empty
  instances, and every service has both TTLs set to the configured default. On the
  registry below the instance fetch of \<open>s1\<close> and the health fetch of \<open>s2\<close> fail and
  the default TTL is 60: \<open>s1\<close> is in the snapshot with both TTLs 0, since the
  \<open>continue\<close> after the failed instance fetch skips the assignment of the TTLs, and
  \<open>s2\<close> is in the snapshot with the instance that was fetched for it.
\<close>

theorem fetch_failed_enrichment_counterexample:
  "dnsTTL_c consul_ex = 60 \<and>
   Catalog_Service registry_fail ''s1'' = Inl ''timeout'' \<and>
   Health_Checks registry_fail ''s2'' = Inl ''timeout'' \<and>
   (case fetch consul_ex registry_fail 1 of
      Inl _ \<Rightarrow> False
    | Inr (waitIndex, services, lg) \<Rightarrow>
        fmlookup services ''s1'' =
          Some (service_zero\<lparr>id_svc := ''s1'', name := ''s1'', consulID := ''s1'',
                  ttls := \<lparr>aRecTTL = 0, srvRecTTL = 0\<rparr>\<rparr>) \<and>
        fmlookup services ''s2'' =
          Some (service_zero\<lparr>id_svc := ''s2'', name := ''s2'', consulID := ''s2'',
                  nodes := fmupd ''2.2.2.2''
                    (node_zero\<lparr>aRecAnswer := ''2.2.2.2'',
                       srvRecAnswers :=
                         fmupd 80 \<lparr>priority = 1, weight = 1, port = 80, address = ''2.2.2.2''\<rparr>
                           fmempty\<rparr>) fmempty,
                  ttls := \<lparr>aRecTTL = 60, srvRecTTL = 60\<rparr>\<rparr>))"
proof -
  have cs: "Catalog_Services registry_fail 1 = Inr (fmupd ''s1'' [] (fmupd ''s2'' [] fmempty), 2)"
    by (simp add: registry_fail_def)
  from fetch_result[OF cs, of consul_ex] obtain services lg where
    f: "fetch consul_ex registry_fail 1 = Inr (2, services, lg)"
    and l: "\<And>k. fmlookup services k =
        (if k |\<in>| fmdom (fmupd ''s1'' ([]::string list) (fmupd ''s2'' [] fmempty))
         then (case fetchNodes registry_fail k of
                 Inl e \<Rightarrow> Some (service_zero\<lparr>id_svc := k, name := k, consulID := k\<rparr>)
               | Inr cnodes \<Rightarrow>
                   Some ((case fetchHealth registry_fail k of
                            Inr chealths \<Rightarrow>
                              service_zero\<lparr>id_svc := k, name := k, consulID := k,
                                nodes := transformNodes cnodes, healths := transformHealth chealths\<rparr>
                          | Inl e \<Rightarrow>
                              service_zero\<lparr>id_svc := k, name := k, consulID := k,
                                nodes := transformNodes cnodes\<rparr>)
                         \<lparr>ttls := \<lparr>aRecTTL = dnsTTL_c consul_ex, srvRecTTL = dnsTTL_c consul_ex\<rparr>\<rparr>))
         else None)"
    by blast
  have 1: "fmlookup services ''s1'' =
          Some (service_zero\<lparr>id_svc := ''s1'', name := ''s1'', consulID := ''s1'',
                  ttls := \<lparr>aRecTTL = 0, srvRecTTL = 0\<rparr>\<rparr>)"
    by (simp add: l fetchNodes_def registry_fail_def service_zero_def)
  have 2: "fmlookup services ''s2'' =
          Some (service_zero\<lparr>id_svc := ''s2'', name := ''s2'', consulID := ''s2'',
                  nodes := fmupd ''2.2.2.2''
                    (node_zero\<lparr>aRecAnswer := ''2.2.2.2'',
                       srvRecAnswers :=
                         fmupd 80 \<lparr>priority = 1, weight = 1, port = 80, address = ''2.2.2.2''\<rparr>
                           fmempty\<rparr>) fmempty,
                  ttls := \<lparr>aRecTTL = 60, srvRecTTL = 60\<rparr>\<rparr>)"
    by (simp add: l fetchNodes_def fetchHealth_def registry_fail_def transformNodes_example
          consul_ex_def)
  show ?thesis
    using f 1 2 by (simp add: consul_ex_def registry_fail_def)
qed

text \<open>
  C8, amended: when the list of services is fetched, \<open>fetch\<close> returns the new index and
  a snapshot with exactly the service names of the list; a service whose instance fetch
  failed has no instances; a service whose instance fetch succeeded has the transformed
  instances and both TTLs at the configured default, and no health entries when its
  health fetch failed.
\<close>

theorem fetch_rebuilds_snapshot:
  assumes "Catalog_Services client waitIndex = Inr (cservices, lastIndex)"
  shows "\<exists>services lg. fetch c client waitIndex = Inr (lastIndex, services, lg) \<and>
     fmdom services = fmdom cservices \<and>
     (\<forall>k s. fmlookup services k = Some s \<longrightarrow>
        (isl (Catalog_Service client k) \<longrightarrow> nodes s = fmempty) \<and>
        (\<forall>cnodes. Catalog_Service client k = Inr cnodes \<longrightarrow>
           nodes s = transformNodes cnodes \<and>
           ttls s = \<lparr>aRecTTL = dnsTTL_c c, srvRecTTL = dnsTTL_c c\<rparr> \<and>
           (isl (Health_Checks client k) \<longrightarrow> healths s = fmempty)))"
proof -
  from fetch_result[OF assms, of c] obtain services lg where
    f: "fetch c client waitIndex = Inr (lastIndex, services, lg)"
    and l: "\<And>k. fmlookup services k =
        (if k |\<in>| fmdom cservices
         then (case fetchNodes client k of
                 Inl e \<Rightarrow> Some (service_zero\<lparr>id_svc := k, name := k, consulID := k\<rparr>)
               | Inr cnodes \<Rightarrow>
                   Some ((case fetchHealth client k of
                            Inr chealths \<Rightarrow>
                              service_zero\<lparr>id_svc := k, name := k, consulID := k,
                                nodes := transformNodes cnodes, healths := transformHealth chealths\<rparr>
                          | Inl e \<Rightarrow>
                              service_zero\<lparr>id_svc := k, name := k, consulID := k,
                                nodes := transformNodes cnodes\<rparr>)
                         \<lparr>ttls := \<lparr>aRecTTL = dnsTTL_c c, srvRecTTL = dnsTTL_c c\<rparr>\<rparr>))
         else None)"
    by blast
  have d: "fmdom services = fmdom cservices"
  proof (rule fset_eqI)
    fix k
    show "k |\<in>| fmdom services \<longleftrightarrow> k |\<in>| fmdom cservices"
      by (simp add: fmlookup_dom_iff l split: sum.splits)
  qed
  have p: "\<forall>k s. fmlookup services k = Some s \<longrightarrow>
        (isl (Catalog_Service client k) \<longrightarrow> nodes s = fmempty) \<and>
        (\<forall>cnodes. Catalog_Service client k = Inr cnodes \<longrightarrow>
           nodes s = transformNodes cnodes \<and>
           ttls s = \<lparr>aRecTTL = dnsTTL_c c, srvRecTTL = dnsTTL_c c\<rparr> \<and>
           (isl (Health_Checks client k) \<longrightarrow> healths s = fmempty))"
    by (auto simp: l fetchNodes_def fetchHealth_def service_zero_def isl_def
          split: if_splits sum.splits)
  from f d p show ?thesis by blast
qed

theorem fetch_rebuilds_snapshot_witness:
  "\<exists>services lg. fetch consul_ex registry_fail 1 = Inr (2, services, lg) \<and>
     fmdom services = {|''s1'', ''s2''|} \<and>
     (\<exists>s. fmlookup services ''s1'' = Some s \<and> nodes s = fmempty) \<and>
     (\<exists>s. fmlookup services ''s2'' = Some s \<and>
        nodes s = transformNodes [\<lparr>ServiceAddress = [], Address = ''2.2.2.2'', ServicePort = 80\<rparr>] \<and>
        ttls s = \<lparr>aRecTTL = 60, srvRecTTL = 60\<rparr> \<and> healths s = fmempty)"
proof -
  have cs: "Catalog_Services registry_fail 1 = Inr (fmupd ''s1'' [] (fmupd ''s2'' [] fmempty), 2)"
    by (simp add: registry_fail_def)
  from fetch_rebuilds_snapshot [OF cs, of consul_ex] obtain services lg where
    f: "fetch consul_ex registry_fail 1 = Inr (2, services, lg)"
    and d: "fmdom services = fmdom (fmupd ''s1'' ([]::string list) (fmupd ''s2'' [] fmempty))"
    and p: "\<And>k s. fmlookup services k = Some s \<Longrightarrow>
        (isl (Catalog_Service registry_fail k) \<longrightarrow> nodes s = fmempty) \<and>
        (\<forall>cnodes. Catalog_Service registry_fail k = Inr cnodes \<longrightarrow>
           nodes s = transformNodes cnodes \<and>
           ttls s = \<lparr>aRecTTL = dnsTTL_c consul_ex, srvRecTTL = dnsTTL_c consul_ex\<rparr> \<and>
           (isl (Health_Checks registry_fail k) \<longrightarrow> healths s = fmempty))"
    by blast
  have "''s1'' |\<in>| fmdom services" "''s2'' |\<in>| fmdom services" using d by simp_all
  then obtain s1 s2 where s1: "fmlookup services ''s1'' = Some s1"
    and s2: "fmlookup services ''s2'' = Some s2" by (auto simp: fmlookup_dom_iff)
  have n1: "nodes s1 = fmempty" using p[OF s1] by (simp add: registry_fail_def)
  have n2: "nodes s2 = transformNodes [\<lparr>ServiceAddress = [], Address = ''2.2.2.2'', ServicePort = 80\<rparr>] \<and>
        ttls s2 = \<lparr>aRecTTL = 60, srvRecTTL = 60\<rparr> \<and> healths s2 = fmempty"
    using p[OF s2] by (simp add: registry_fail_def consul_ex_def)
  have d': "fmdom services = {|''s1'', ''s2''|}" using d by simp
  from f d' s1 s2 n1 n2 show ?thesis by blast
qed

text \<open>
  C9. Rounds of failed fetches that bring the counter of subsequent errors to eleven end
  the loop of the registry mirror; from a counter of zero, with \<open>stop\<close> open, the loop
  is still running after ten failures in a row and ends for too many errors at the
  eleventh. A successful fetch sets the counter to zero. The loop ends for too many
  errors only after eleven failed fetches in a row.
\<close>

theorem fetchIndefinitely_failure_budget:
  "(fs \<noteq> [] \<and> 11 \<le> subsequentErrors st + length fs \<and>
      (\<forall>x \<in> set fs. isl (fetch c (fst x) (waitIndex_st st))) \<longrightarrow>
      (\<exists>reason st'. fetchIndefinitely_loop c (fs @ later) st = Exited reason st')) \<and>
   (subsequentErrors st = 0 \<and> length fs = 11 \<and>
      (\<forall>x \<in> set fs. isl (fetch c (fst x) (waitIndex_st st))) \<and>
      (\<forall>x \<in> set (butlast fs). \<not> snd x) \<longrightarrow>
      fetchIndefinitely_loop c (fs @ later) st =
        Exited TooManyErrors (st\<lparr>subsequentErrors := 11\<rparr>) \<and>
      fetchIndefinitely_loop c (butlast fs) st = Running (st\<lparr>subsequentErrors := 10\<rparr>)) \<and>
   (fetch c client (waitIndex_st st) = Inr (i, sv, lg) \<longrightarrow>
      fetchIndefinitely_loop c [(client, False)] st =
        Running (st\<lparr>subsequentErrors := 0, waitIndex_st := i, services_st := sv,
                     triggers := triggers st + 1\<rparr>)) \<and>
   (subsequentErrors st = 0 \<and> fetchIndefinitely_loop c rounds st = Exited TooManyErrors st' \<longrightarrow>
      (\<exists>pre ffs suf. rounds = pre @ ffs @ suf \<and> length ffs = 11 \<and>
         (\<forall>x \<in> set ffs. isl (fetch c (fst x) (waitIndex_st st'))) \<and>
         (\<forall>x \<in> set (butlast ffs). \<not> snd x)))"
proof (intro conjI impI)
  assume "fs \<noteq> [] \<and> 11 \<le> subsequentErrors st + length fs \<and>
      (\<forall>x \<in> set fs. isl (fetch c (fst x) (waitIndex_st st)))"
  then show "\<exists>reason st'. fetchIndefinitely_loop c (fs @ later) st = Exited reason st'"
    using failures_exit[of fs st c later] by blast
next
  assume h: "subsequentErrors st = 0 \<and> length fs = 11 \<and>
      (\<forall>x \<in> set fs. isl (fetch c (fst x) (waitIndex_st st))) \<and>
      (\<forall>x \<in> set (butlast fs). \<not> snd x)"
  then show "fetchIndefinitely_loop c (fs @ later) st =
        Exited TooManyErrors (st\<lparr>subsequentErrors := 11\<rparr>)"
    using eleventh_failure_exits[of st fs c later] by blast
  from h show "fetchIndefinitely_loop c (butlast fs) st = Running (st\<lparr>subsequentErrors := 10\<rparr>)"
    using eleventh_failure_exits[of st fs c later] by blast
next
  assume "fetch c client (waitIndex_st st) = Inr (i, sv, lg)"
  then show "fetchIndefinitely_loop c [(client, False)] st =
        Running (st\<lparr>subsequentErrors := 0, waitIndex_st := i, services_st := sv,
                     triggers := triggers st + 1\<rparr>)"
    by (simp add: fetchIndefinitely_loop_ok)
next
  assume h: "subsequentErrors st = 0 \<and>
     fetchIndefinitely_loop c rounds st = Exited TooManyErrors st'"
  then have r: "fetchIndefinitely_loop c rounds st = Exited TooManyErrors st'"
    and le: "subsequentErrors st \<le> 10" by simp_all
  from exit_needs_eleven[OF r le] obtain pre ffs suf where
    d: "rounds = pre @ ffs @ suf"
    and af: "\<forall>x \<in> set ffs. isl (fetch c (fst x) (waitIndex_st st'))"
    and nb: "\<forall>x \<in> set (butlast ffs). \<not> snd x"
    and alt: "(pre = [] \<and> subsequentErrors st + length ffs = 11 \<and>
                waitIndex_st st' = waitIndex_st st) \<or> length ffs = 11"
    by blast
  from alt h have "length ffs = 11" by auto
  with d af nb show "\<exists>pre ffs suf. rounds = pre @ ffs @ suf \<and> length ffs = 11 \<and>
         (\<forall>x \<in> set ffs. isl (fetch c (fst x) (waitIndex_st st'))) \<and>
         (\<forall>x \<in> set (butlast ffs). \<not> snd x)"
    by blast
qed

theorem fetchIndefinitely_failure_budget_witness:
  "fetchIndefinitely consul_ex (replicate 11 (registry_down, False)) =
     Exited TooManyErrors (mirror_start\<lparr>subsequentErrors := 11\<rparr>) \<and>
   fetchIndefinitely consul_ex (replicate 10 (registry_down, False)) =
     Running (mirror_start\<lparr>subsequentErrors := 10\<rparr>) \<and>
   fetchIndefinitely consul_ex [(registry_empty, False)] =
     Running \<lparr>waitIndex_st = 2, subsequentErrors = 0, services_st = fmempty, triggers = 1\<rparr>"
proof -
  let ?fs = "replicate 11 (registry_down, False)"
  have st: "fetchIndefinitely consul_ex = (\<lambda>rounds. fetchIndefinitely_loop consul_ex rounds mirror_start)"
    by (rule ext) (simp add: fetchIndefinitely_def mirror_start_def)
  have h0: "subsequentErrors mirror_start = 0" by (simp add: mirror_start_def)
  have h1: "length ?fs = 11" by simp
  have h2: "\<forall>x \<in> set ?fs. isl (fetch consul_ex (fst x) (waitIndex_st mirror_start))"
    by (simp add: fetch_registry_down)
  have h3: "\<forall>x \<in> set (butlast ?fs). \<not> snd x"
    by (auto dest: in_set_butlastD)
  have bl: "butlast ?fs = replicate 10 (registry_down, False)"
    by (simp add: butlast_conv_take)
  have ok: "fetch consul_ex registry_empty (waitIndex_st mirror_start) = Inr (2, fmempty, [])"
    by (simp add: fetch_registry_empty mirror_start_def)
  note t = fetchIndefinitely_failure_budget
    [of ?fs mirror_start consul_ex "[]" registry_empty 2 fmempty "[]" "[]" mirror_start]
  from t h0 h1 h2 h3 have 1: "fetchIndefinitely_loop consul_ex (?fs @ []) mirror_start =
        Exited TooManyErrors (mirror_start\<lparr>subsequentErrors := 11\<rparr>)"
    and 2: "fetchIndefinitely_loop consul_ex (butlast ?fs) mirror_start =
        Running (mirror_start\<lparr>subsequentErrors := 10\<rparr>)"
    by blast+
  from t ok have 3: "fetchIndefinitely_loop consul_ex [(registry_empty, False)] mirror_start =
        Running (mirror_start\<lparr>subsequentErrors := 0, waitIndex_st := 2, services_st := fmempty,
                     triggers := triggers mirror_start + 1\<rparr>)"
    by blast
  from 1 2 3 show ?thesis
    unfolding st bl by (simp add: mirror_start_def)
qed

text \<open>
  C10. The transformation panics with an index out of range exactly when some A or SRV
  record has a short answer that is empty or whose code points are all white space (as
  \<open>strings.Fields\<close> decodes and classifies them); for such an answer the fields are
  not four and the read of the first field is out of range.
\<close>

theorem blank_answer_index_out_of_range:
  "(transformZoneRecords n z = Inl IndexOutOfRange \<longleftrightarrow>
      (\<exists>r \<in> set (Records z). (Type_zr r = ''A'' \<or> Type_zr r = ''SRV'') \<and>
         (\<exists>ans \<in> set (ShortAns r). list_all IsSpace (runes ans)))) \<and>
   (list_all IsSpace (runes ans) \<longrightarrow>
      length (Fields ans) \<noteq> 4 \<and> index (Fields ans) 0 = Inl IndexOutOfRange)"
proof
  have "transformZoneRecords n z = Inl IndexOutOfRange \<longleftrightarrow> isl (transformZoneRecords n z)"
    by (cases "transformZoneRecords n z") (auto intro: panic.exhaust)
  then show "transformZoneRecords n z = Inl IndexOutOfRange \<longleftrightarrow>
      (\<exists>r \<in> set (Records z). (Type_zr r = ''A'' \<or> Type_zr r = ''SRV'') \<and>
         (\<exists>ans \<in> set (ShortAns r). list_all IsSpace (runes ans)))"
    by (simp add: transformZoneRecords_def transformZoneRecords_loop_isl Fields_empty_iff)
  show "list_all IsSpace (runes ans) \<longrightarrow>
      length (Fields ans) \<noteq> 4 \<and> index (Fields ans) 0 = Inl IndexOutOfRange"
    by (simp add: Fields_empty_iff[symmetric] index_def)
qed

theorem blank_answer_index_out_of_range_witness:
  "transformZoneRecords zone_ex zone_blank = Inl IndexOutOfRange \<and>
   transformZoneRecords zone_ex zone_nbsp = Inl IndexOutOfRange \<and>
   index (Fields ''  '') 0 = Inl IndexOutOfRange \<and>
   index (Fields [CHR 0xC2, CHR 0xA0]) 0 = Inl IndexOutOfRange \<and>
   transformZoneRecords zone_ex zone_wellformed \<noteq> Inl IndexOutOfRange"
proof -
  have b1: "list_all IsSpace (runes ''  '')"
    by (simp add: decodeRune_def IsSpace_def)
  have b2: "list_all IsSpace (runes [CHR 0xC2, CHR 0xA0])"
    by (simp add: decodeRune_def IsSpace_def Let_def)
  have n1: "\<not> list_all IsSpace (runes ''1.1.1.1'')"
    "\<not> list_all IsSpace (runes ''1 1 1 1.1.1.1'')"
    "\<not> list_all IsSpace (runes ''1 1 2 2.2.2.2'')"
    unfolding Fields_empty_iff[symmetric] by (simp_all add: Fields_examples)
  have 1: "transformZoneRecords zone_ex zone_blank = Inl IndexOutOfRange"
    using blank_answer_index_out_of_range [of zone_ex zone_blank "''  ''"] b1
    by (simp add: zone_blank_def)
  have 2: "transformZoneRecords zone_ex zone_nbsp = Inl IndexOutOfRange"
    using blank_answer_index_out_of_range [of zone_ex zone_nbsp "''  ''"] b2
    by (simp add: zone_nbsp_def)
  have 3: "index (Fields ''  '') 0 = Inl IndexOutOfRange"
    using blank_answer_index_out_of_range [of zone_ex zone_blank "''  ''"] b1 by blast
  have 4: "index (Fields [CHR 0xC2, CHR 0xA0]) 0 = Inl IndexOutOfRange"
    using blank_answer_index_out_of_range [of zone_ex zone_blank "[CHR 0xC2, CHR 0xA0]"] b2
    by blast
  have 5: "transformZoneRecords zone_ex zone_wellformed \<noteq> Inl IndexOutOfRange"
    using blank_answer_index_out_of_range [of zone_ex zone_wellformed "''  ''"] n1
    by (simp add: zone_wellformed_def)
  from 1 2 3 4 5 show ?thesis by simp
qed

end
